theory Spec2Isabelle
  imports Main "HOL-Library.Word"
begin

section \<open>Data model (ChatContext)\<close>

text \<open>
  A string of the platform is a sequence of 16-bit code units. The strings the program makes
  itself or takes from the user (ids, titles, roles, the text typed in, storage keys, user
  names, passwords) are kept as lists of 8-bit characters, so they are the strings whose code
  units are all below 256. The content of a message is whatever string the server sends and
  is kept as the list of its code units.
\<close>

definition unit_of_char :: "char \<Rightarrow> 16 word" where
  "unit_of_char c = word_of_nat (of_char c)"

definition units_of :: "string \<Rightarrow> 16 word list" where
  "units_of s = map unit_of_char s"

text \<open>The other way round, for a string all of whose code units are below 256.\<close>

fun narrow :: "16 word list \<Rightarrow> string option" where
  "narrow [] = Some []"
| "narrow (u # us) =
     (if unat u < 256
      then (case narrow us of None \<Rightarrow> None | Some s \<Rightarrow> Some (char_of (unat u) # s))
      else None)"

text \<open>
  The interfaces \<open>Message\<close> and \<open>Conversation\<close> of the chat context. Field names carry
  a prefix because both interfaces have a field \<open>id\<close>. Timestamps are the integer
  milliseconds that \<open>Date.now()\<close> returns; the optional \<open>imageBase64\<close> is an option.
\<close>

datatype role = User | Assistant

record Message =
  m_id :: string
  m_role :: role
  m_content :: "16 word list"
  m_timestamp :: int
  m_imageBase64 :: "string option"

record Conversation =
  c_id :: string
  c_title :: string
  c_messages :: "Message list"
  c_createdAt :: int
  c_updatedAt :: int

section \<open>Numbers and JSON text\<close>

text \<open>
  \<open>Number.prototype.toString\<close> on the integers the program prints (\<open>Date.now()\<close>, the
  message counter, timestamps): plain decimal digits, a minus sign for negatives.
\<close>

definition digit_char :: "nat \<Rightarrow> char" where
  "digit_char d = char_of (48 + d)"

fun nat_toString :: "nat \<Rightarrow> string" where
  "nat_toString n =
     (if n < 10 then [digit_char n] else nat_toString (n div 10) @ [digit_char (n mod 10)])"

declare nat_toString.simps [simp del]

definition int_toString :: "int \<Rightarrow> string" where
  "int_toString i = (if i < 0 then CHR ''-'' # nat_toString (nat (- i)) else nat_toString (nat i))"

text \<open>
  The values \<open>JSON.parse\<close> returns and \<open>JSON.stringify\<close> prints. A number that is an
  integer is \<open>JNum\<close> of it; any other number is \<open>JDec m e\<close>, which stands for
  \<open>m\<close> times ten to the power \<open>e\<close>, with \<open>e\<close> negative. Both are exact: the
  platform's number is the double nearest to that value. A string is the list of its code
  units; an object keeps its members in the order of the text.
\<close>

datatype json =
    JNull
  | JBool bool
  | JNum int
  | JDec int int
  | JStr "16 word list"
  | JArr "json list"
  | JObj "(16 word list \<times> json) list"

definition hex_digit :: "nat \<Rightarrow> char" where
  "hex_digit d = (if d < 10 then char_of (48 + d) else char_of (87 + d))"

text \<open>
  \<open>JSON.stringify\<close> on a string: the quote, the backslash and the control characters are
  escaped, every other code unit below 256 is copied. The texts of this model are made of
  8-bit characters, so a code unit from 256 on is written as its \<open>\u\<close> escape, which
  \<open>JSON.parse\<close> reads as that code unit.
\<close>

definition quote_unit :: "16 word \<Rightarrow> string" where
  "quote_unit u =
     (let n = unat u
      in if n = 0x22 then [CHR 0x5C, CHR 0x22]
         else if n = 0x5C then [CHR 0x5C, CHR 0x5C]
         else if n = 0x08 then [CHR 0x5C, CHR ''b'']
         else if n = 0x0C then [CHR 0x5C, CHR ''f'']
         else if n = 0x0A then [CHR 0x5C, CHR ''n'']
         else if n = 0x0D then [CHR 0x5C, CHR ''r'']
         else if n = 0x09 then [CHR 0x5C, CHR ''t'']
         else if n < 32
           then [CHR 0x5C, CHR ''u'', CHR ''0'', CHR ''0'', hex_digit (n div 16), hex_digit (n mod 16)]
         else if n < 256 then [char_of n]
         else [CHR 0x5C, CHR ''u'', hex_digit (n div 4096), hex_digit (n div 256 mod 16),
               hex_digit (n div 16 mod 16), hex_digit (n mod 16)])"

definition quote_string :: "16 word list \<Rightarrow> string" where
  "quote_string us = CHR 0x22 # concat (map quote_unit us) @ [CHR 0x22]"

text \<open>
  The program only ever prints integers (timestamps). For completeness a number that is not
  an integer is printed as mantissa and exponent, which denotes the same number; the platform
  prints the shortest digits of the double.
\<close>

fun stringify :: "json \<Rightarrow> string"
  and stringify_elements :: "json list \<Rightarrow> string"
  and stringify_members :: "(16 word list \<times> json) list \<Rightarrow> string"
where
  "stringify JNull = ''null''"
| "stringify (JBool b) = (if b then ''true'' else ''false'')"
| "stringify (JNum i) = int_toString i"
| "stringify (JDec m e) = int_toString m @ CHR ''e'' # int_toString e"
| "stringify (JStr us) = quote_string us"
| "stringify (JArr vs) = CHR ''['' # stringify_elements vs @ '']''"
| "stringify (JObj kvs) = CHR ''{'' # stringify_members kvs @ ''}''"
| "stringify_elements [] = []"
| "stringify_elements [v] = stringify v"
| "stringify_elements (v # w # vs) = stringify v @ CHR '','' # stringify_elements (w # vs)"
| "stringify_members [] = []"
| "stringify_members [(k, v)] = quote_string k @ CHR '':'' # stringify v"
| "stringify_members ((k, v) # m # ms) =
     quote_string k @ CHR '':'' # stringify v @ CHR '','' # stringify_members (m # ms)"

text \<open>Reading a property of a parsed object: of two members with one name the later one wins.\<close>

definition own_property :: "(16 word list \<times> json) list \<Rightarrow> 16 word list \<Rightarrow> json option" where
  "own_property kvs k = map_of (rev kvs) k"

text \<open>Values without a number that is not an integer, anywhere inside.\<close>

fun integral :: "json \<Rightarrow> bool"
  and integral_elements :: "json list \<Rightarrow> bool"
  and integral_members :: "(16 word list \<times> json) list \<Rightarrow> bool"
where
  "integral JNull = True"
| "integral (JBool b) = True"
| "integral (JNum i) = True"
| "integral (JDec m e) = False"
| "integral (JStr us) = True"
| "integral (JArr vs) = integral_elements vs"
| "integral (JObj kvs) = integral_members kvs"
| "integral_elements [] = True"
| "integral_elements (v # vs) = (integral v \<and> integral_elements vs)"
| "integral_members [] = True"
| "integral_members ((k, v) # ms) = (integral v \<and> integral_members ms)"

section \<open>Strings and arrays of the platform\<close>

text \<open>Decimal digits, and the number a run of digits denotes.\<close>

definition is_digit :: "char \<Rightarrow> bool" where
  "is_digit c = (48 \<le> (of_char c :: nat) \<and> (of_char c :: nat) \<le> 57)"

definition digit_value :: "char \<Rightarrow> nat" where
  "digit_value c = of_char c - 48"

definition digits_value :: "string \<Rightarrow> nat" where
  "digits_value ds = foldl (\<lambda>a c. 10 * a + digit_value c) 0 ds"

text \<open>
  \<open>String.prototype.split('\n')\<close>: the segments between the newlines, so one more
  segment than there are newlines and never an empty list.
\<close>

fun split_nl :: "string \<Rightarrow> string list" where
  "split_nl [] = [] # []"
| "split_nl (c # cs) =
     (if c = CHR 0x0A then [] # split_nl cs
      else (case split_nl cs of [] \<Rightarrow> [c # []] | l # ls \<Rightarrow> (c # l) # ls))"

text \<open>\<open>Array.prototype.pop\<close>: the last element, if there is one, and the array without it.\<close>

definition pop :: "'a list \<Rightarrow> 'a option \<times> 'a list" where
  "pop xs = (if xs = [] then (None, []) else (Some (last xs), butlast xs))"

text \<open>
  \<open>String.prototype.trim\<close>: white space and line terminators are removed at both ends
  (of the code units below 256 these are 9 to 13, 32 and 160).
\<close>

definition is_space :: "char \<Rightarrow> bool" where
  "is_space c =
     (let n = (of_char c :: nat) in (9 \<le> n \<and> n \<le> 13) \<or> n = 32 \<or> n = 160)"

definition trim :: "string \<Rightarrow> string" where
  "trim s = rev (dropWhile is_space (rev (dropWhile is_space s)))"

text \<open>
  \<open>String.prototype.toLowerCase\<close> on code units below 256: the letters A to Z and the
  capital letters of Latin-1 (192 to 222 without the multiplication sign 215) move up by 32,
  every other character is kept.
\<close>

definition toLowerCase_char :: "char \<Rightarrow> char" where
  "toLowerCase_char c =
     (let n = (of_char c :: nat)
      in if (65 \<le> n \<and> n \<le> 90) \<or> (192 \<le> n \<and> n \<le> 222 \<and> n \<noteq> 215)
         then char_of (n + 32) else c)"

definition toLowerCase :: "string \<Rightarrow> string" where
  "toLowerCase s = map toLowerCase_char s"

section \<open>Reading JSON text\<close>

text \<open>
  \<open>JSON.parse\<close>, as a recursive-descent reader of the JSON grammar. \<open>None\<close> stands
  for the \<open>SyntaxError\<close> the platform throws.
\<close>

definition is_ws :: "char \<Rightarrow> bool" where
  "is_ws c = (c = CHR 0x20 \<or> c = CHR 0x09 \<or> c = CHR 0x0A \<or> c = CHR 0x0D)"

definition skip_ws :: "string \<Rightarrow> string" where
  "skip_ws s = dropWhile is_ws s"

definition hex_value :: "char \<Rightarrow> nat option" where
  "hex_value c =
     (let n = (of_char c :: nat)
      in if 48 \<le> n \<and> n \<le> 57 then Some (n - 48)
         else if 97 \<le> n \<and> n \<le> 102 then Some (n - 87)
         else if 65 \<le> n \<and> n \<le> 70 then Some (n - 55)
         else None)"

definition unescape :: "char \<Rightarrow> char option" where
  "unescape e =
     (if e = CHR 0x22 then Some (CHR 0x22)
      else if e = CHR 0x5C then Some (CHR 0x5C)
      else if e = CHR ''/'' then Some (CHR ''/'')
      else if e = CHR ''b'' then Some (CHR 0x08)
      else if e = CHR ''f'' then Some (CHR 0x0C)
      else if e = CHR ''n'' then Some (CHR 0x0A)
      else if e = CHR ''r'' then Some (CHR 0x0D)
      else if e = CHR ''t'' then Some (CHR 0x09)
      else None)"

text \<open>
  The code units of a string literal, from behind the opening quote to the closing one. An
  escape \<open>\u\<close> with four hexadecimal digits gives the code unit of that number.
\<close>

fun parse_chars :: "string \<Rightarrow> (16 word list \<times> string) option" where
  "parse_chars [] = None"
| "parse_chars (c # cs) =
     (if c = CHR 0x22 then Some ([], cs)
      else if c = CHR 0x5C then
        (case cs of
           [] \<Rightarrow> None
         | e # rest \<Rightarrow>
             if e = CHR ''u'' then
               (case rest of
                  h1 # h2 # h3 # h4 # rest' \<Rightarrow>
                    (case (hex_value h1, hex_value h2, hex_value h3, hex_value h4) of
                       (Some a, Some b, Some x, Some y) \<Rightarrow>
                         (case parse_chars rest' of
                            None \<Rightarrow> None
                          | Some (str, r) \<Rightarrow>
                              Some (word_of_nat (4096 * a + 256 * b + 16 * x + y) # str, r))
                     | _ \<Rightarrow> None)
                | _ \<Rightarrow> None)
             else
               (case unescape e of
                  None \<Rightarrow> None
                | Some ch \<Rightarrow>
                    (case parse_chars rest of
                       None \<Rightarrow> None
                     | Some (str, r) \<Rightarrow> Some (unit_of_char ch # str, r))))
      else if (of_char c :: nat) < 32 then None
      else (case parse_chars cs of
              None \<Rightarrow> None
            | Some (str, r) \<Rightarrow> Some (unit_of_char c # str, r)))"

text \<open>
  A number literal: an optional minus sign, the integer digits (no leading zero before
  another digit), an optional fraction (a point and at least one digit) and an optional
  exponent (\<open>e\<close> or \<open>E\<close>, an optional sign, at least one digit). Its value is the
  digits of the integer part and the fraction, read as one integer, times ten to the power of
  the exponent less the number of fraction digits.
\<close>

definition decimal_value :: "int \<Rightarrow> int \<Rightarrow> json" where
  "decimal_value m e =
     (if 0 \<le> e then JNum (m * 10 ^ nat e)
      else if m mod 10 ^ nat (- e) = 0 then JNum (m div 10 ^ nat (- e))
      else JDec m e)"

definition parse_exponent :: "string \<Rightarrow> (int \<times> string) option" where
  "parse_exponent s =
     (let neg = (s \<noteq> [] \<and> hd s = CHR ''-'');
          s1 = (if s \<noteq> [] \<and> (hd s = CHR ''-'' \<or> hd s = CHR ''+'') then tl s else s);
          ds = takeWhile is_digit s1
      in if ds = [] then None
         else Some (if neg then - int (digits_value ds) else int (digits_value ds),
                    dropWhile is_digit s1))"

definition parse_number :: "string \<Rightarrow> (json \<times> string) option" where
  "parse_number s =
     (let neg = (s \<noteq> [] \<and> hd s = CHR ''-'');
          s1 = (if neg then tl s else s);
          ds = takeWhile is_digit s1;
          r1 = dropWhile is_digit s1
      in if ds = [] then None
         else if length ds > 1 \<and> hd ds = CHR ''0'' then None
         else
           (let dot = (r1 \<noteq> [] \<and> hd r1 = CHR ''.'');
                fs = (if dot then takeWhile is_digit (tl r1) else []);
                r2 = (if dot then dropWhile is_digit (tl r1) else r1);
                m = (if neg then - int (digits_value (ds @ fs)) else int (digits_value (ds @ fs)))
            in if dot \<and> fs = [] then None
               else if r2 \<noteq> [] \<and> (hd r2 = CHR ''e'' \<or> hd r2 = CHR ''E'')
               then (case parse_exponent (tl r2) of
                       None \<Rightarrow> None
                     | Some (x, r3) \<Rightarrow> Some (decimal_value m (x - int (length fs)), r3))
               else Some (decimal_value m (- int (length fs)), r2)))"

text \<open>
  Values, the elements of an array and the members of an object. The first argument bounds the
  depth of the recursion, so that the three functions are total; \<open>JSON_parse\<close> starts it
  at one more than the length of the text. Every level of the recursion stands for a character
  of its own (an opening bracket, or the comma or closing bracket behind an element), so the
  bound is there for totality only; for the texts that \<open>stringify\<close> prints this is
  proved below.
\<close>

fun parse_value :: "nat \<Rightarrow> string \<Rightarrow> (json \<times> string) option"
  and parse_elements :: "nat \<Rightarrow> string \<Rightarrow> (json list \<times> string) option"
  and parse_members :: "nat \<Rightarrow> string \<Rightarrow> ((16 word list \<times> json) list \<times> string) option"
where
  "parse_value 0 s = None"
| "parse_value (Suc n) s =
     (case s of
        [] \<Rightarrow> None
      | c # cs \<Rightarrow>
          if c = CHR ''['' then
            (case skip_ws cs of
               [] \<Rightarrow> None
             | d # ds \<Rightarrow>
                 if d = CHR '']'' then Some (JArr [], ds)
                 else (case parse_elements n (d # ds) of
                         None \<Rightarrow> None
                       | Some (vs, r) \<Rightarrow> Some (JArr vs, r)))
          else if c = CHR ''{'' then
            (case skip_ws cs of
               [] \<Rightarrow> None
             | d # ds \<Rightarrow>
                 if d = CHR ''}'' then Some (JObj [], ds)
                 else (case parse_members n (d # ds) of
                         None \<Rightarrow> None
                       | Some (ms, r) \<Rightarrow> Some (JObj ms, r)))
          else if c = CHR 0x22 then
            (case parse_chars cs of
               None \<Rightarrow> None
             | Some (str, r) \<Rightarrow> Some (JStr str, r))
          else if take 4 s = ''true'' then Some (JBool True, drop 4 s)
          else if take 5 s = ''false'' then Some (JBool False, drop 5 s)
          else if take 4 s = ''null'' then Some (JNull, drop 4 s)
          else parse_number s)"
| "parse_elements 0 s = None"
| "parse_elements (Suc n) s =
     (case parse_value n s of
        None \<Rightarrow> None
      | Some (v, r) \<Rightarrow>
          (case skip_ws r of
             [] \<Rightarrow> None
           | d # ds \<Rightarrow>
               if d = CHR '','' then
                 (case parse_elements n (skip_ws ds) of
                    None \<Rightarrow> None
                  | Some (vs, r') \<Rightarrow> Some (v # vs, r'))
               else if d = CHR '']'' then Some ([v], ds)
               else None))"
| "parse_members 0 s = None"
| "parse_members (Suc n) s =
     (case s of
        [] \<Rightarrow> None
      | q # cs \<Rightarrow>
          if q \<noteq> CHR 0x22 then None
          else
            (case parse_chars cs of
               None \<Rightarrow> None
             | Some (k, r) \<Rightarrow>
                 (case skip_ws r of
                    [] \<Rightarrow> None
                  | colon # r1 \<Rightarrow>
                      if colon \<noteq> CHR '':'' then None
                      else
                        (case parse_value n (skip_ws r1) of
                           None \<Rightarrow> None
                         | Some (v, r2) \<Rightarrow>
                             (case skip_ws r2 of
                                [] \<Rightarrow> None
                              | d # ds \<Rightarrow>
                                  if d = CHR '','' then
                                    (case parse_members n (skip_ws ds) of
                                       None \<Rightarrow> None
                                     | Some (ms, r') \<Rightarrow> Some ((k, v) # ms, r'))
                                  else if d = CHR ''}'' then Some ([(k, v)], ds)
                                  else None)))))"

definition JSON_parse :: "string \<Rightarrow> json option" where
  "JSON_parse s =
     (case parse_value (Suc (length s)) (skip_ws s) of
        None \<Rightarrow> None
      | Some (v, r) \<Rightarrow> if skip_ws r = [] then Some v else None)"

text \<open>
  Two notions for reasoning about the reader: what may follow a value without being taken for
  a part of it, and the characters a printed value can begin with.
\<close>

definition follow_ok :: "string \<Rightarrow> bool" where
  "follow_ok rest =
     (rest = [] \<or> hd rest = CHR '','' \<or> hd rest = CHR '']'' \<or> hd rest = CHR ''}'')"

definition value_start :: "char \<Rightarrow> bool" where
  "value_start c =
     (c = CHR ''['' \<or> c = CHR ''{'' \<or> c = CHR 0x22 \<or> c = CHR ''t'' \<or> c = CHR ''f'' \<or>
      c = CHR ''n'' \<or> c = CHR ''-'' \<or> is_digit c)"

section \<open>Conversations as JSON values\<close>

text \<open>
  What \<open>JSON.stringify(conversationsRef.current)\<close> serialises: every field of the two
  interfaces, \<open>imageBase64\<close> only where it is defined.
\<close>

definition role_toString :: "role \<Rightarrow> string" where
  "role_toString r = (case r of User \<Rightarrow> ''user'' | Assistant \<Rightarrow> ''assistant'')"

definition json_of_message :: "Message \<Rightarrow> json" where
  "json_of_message m =
     JObj ([(units_of ''id'', JStr (units_of (m_id m))),
            (units_of ''role'', JStr (units_of (role_toString (m_role m)))),
            (units_of ''content'', JStr (m_content m)),
            (units_of ''timestamp'', JNum (m_timestamp m))]
           @ (case m_imageBase64 m of
                None \<Rightarrow> []
              | Some b \<Rightarrow> [(units_of ''imageBase64'', JStr (units_of b))]))"

definition json_of_conversation :: "Conversation \<Rightarrow> json" where
  "json_of_conversation c =
     JObj [(units_of ''id'', JStr (units_of (c_id c))),
           (units_of ''title'', JStr (units_of (c_title c))),
           (units_of ''messages'', JArr (map json_of_message (c_messages c))),
           (units_of ''createdAt'', JNum (c_createdAt c)),
           (units_of ''updatedAt'', JNum (c_updatedAt c))]"

definition json_of_conversations :: "Conversation list \<Rightarrow> json" where
  "json_of_conversations cs = JArr (map json_of_conversation cs)"

text \<open>
  The value \<open>JSON.parse\<close> returns is used as a \<open>Conversation[]\<close> without any check. The
  functions below read a JSON value as that type; they are \<open>None\<close> where the value is not of
  that type, or has a timestamp that is not an integer or an id, title, role or image with a
  code unit from 256 on (the program would then hold a value that the records of this model
  do not represent). Members of an object beyond the fields of the interface are not kept.
\<close>

definition role_of_string :: "string \<Rightarrow> role option" where
  "role_of_string r =
     (if r = ''user'' then Some User else if r = ''assistant'' then Some Assistant else None)"

fun those_map :: "('a \<Rightarrow> 'b option) \<Rightarrow> 'a list \<Rightarrow> 'b list option" where
  "those_map f [] = Some []"
| "those_map f (x # xs) =
     (case f x of None \<Rightarrow> None
      | Some y \<Rightarrow> (case those_map f xs of None \<Rightarrow> None | Some ys \<Rightarrow> Some (y # ys)))"

text \<open>The member of a given name, if it is a string, a string of 8-bit characters, an integer.\<close>

definition units_member :: "(16 word list \<times> json) list \<Rightarrow> string \<Rightarrow> 16 word list option" where
  "units_member kvs k =
     (case own_property kvs (units_of k) of Some (JStr us) \<Rightarrow> Some us | _ \<Rightarrow> None)"

definition string_member :: "(16 word list \<times> json) list \<Rightarrow> string \<Rightarrow> string option" where
  "string_member kvs k =
     (case own_property kvs (units_of k) of Some (JStr us) \<Rightarrow> narrow us | _ \<Rightarrow> None)"

definition int_member :: "(16 word list \<times> json) list \<Rightarrow> string \<Rightarrow> int option" where
  "int_member kvs k =
     (case own_property kvs (units_of k) of Some (JNum i) \<Rightarrow> Some i | _ \<Rightarrow> None)"

definition message_of_json :: "json \<Rightarrow> Message option" where
  "message_of_json j =
     (case j of
        JObj kvs \<Rightarrow>
          (case (string_member kvs ''id'', string_member kvs ''role'',
                 units_member kvs ''content'', int_member kvs ''timestamp'') of
             (Some i, Some r, Some c, Some t) \<Rightarrow>
               (case role_of_string r of
                  None \<Rightarrow> None
                | Some ro \<Rightarrow>
                    (case own_property kvs (units_of ''imageBase64'') of
                       None \<Rightarrow>
                         Some \<lparr>m_id = i, m_role = ro, m_content = c, m_timestamp = t,
                               m_imageBase64 = None\<rparr>
                     | Some (JStr b) \<Rightarrow>
                         (case narrow b of
                            None \<Rightarrow> None
                          | Some b8 \<Rightarrow>
                              Some \<lparr>m_id = i, m_role = ro, m_content = c, m_timestamp = t,
                                    m_imageBase64 = Some b8\<rparr>)
                     | Some _ \<Rightarrow> None))
           | _ \<Rightarrow> None)
      | _ \<Rightarrow> None)"

definition conversation_of_json :: "json \<Rightarrow> Conversation option" where
  "conversation_of_json j =
     (case j of
        JObj kvs \<Rightarrow>
          (case (string_member kvs ''id'', string_member kvs ''title'',
                 own_property kvs (units_of ''messages''), int_member kvs ''createdAt'',
                 int_member kvs ''updatedAt'') of
             (Some i, Some t, Some (JArr ms), Some ca, Some ua) \<Rightarrow>
               (case those_map message_of_json ms of
                  None \<Rightarrow> None
                | Some msgs \<Rightarrow>
                    Some \<lparr>c_id = i, c_title = t, c_messages = msgs, c_createdAt = ca,
                          c_updatedAt = ua\<rparr>)
           | _ \<Rightarrow> None)
      | _ \<Rightarrow> None)"

definition conversations_of_json :: "json \<Rightarrow> Conversation list option" where
  "conversations_of_json j =
     (case j of JArr cs \<Rightarrow> those_map conversation_of_json cs | _ \<Rightarrow> None)"

section \<open>The conversation provider\<close>

text \<open>
  The state of \<open>ChatProvider\<close>: the two pieces of React state, the three refs, the
  key-value store behind \<open>AsyncStorage\<close>, and the keys of the \<open>getItem\<close> calls that
  \<open>loadConversations\<close> is still awaiting. \<open>saveTimer\<close> says whether the timer held by
  \<open>saveTimerRef\<close> is still to fire.

  \<open>setConversations\<close> does not change \<open>conversations\<close> at the call: React puts the
  updater (or the new value) in a queue and runs the queue when it next renders the
  component. \<open>pendingUpdates\<close> is that queue, oldest first; a new value \<open>v\<close> is the
  updater \<open>\<lambda>prev. v\<close>.
\<close>

record provider =
  conversations :: "Conversation list"
  pendingUpdates :: "(Conversation list \<Rightarrow> Conversation list) list"
  isLoading :: bool
  conversationsRef :: "Conversation list"
  saveTimer :: bool
  storageKeyRef :: "string option"
  storage :: "string \<rightharpoonup> string"
  pendingLoads :: "string list"

text \<open>\<open>scheduleSave\<close>: clear the running timer, start a new one.\<close>

definition scheduleSave :: "provider \<Rightarrow> provider" where
  "scheduleSave s = s\<lparr>saveTimer := True\<rparr>"

definition setConversations :: "(Conversation list \<Rightarrow> Conversation list) \<Rightarrow> provider \<Rightarrow> provider" where
  "setConversations f s = s\<lparr>pendingUpdates := pendingUpdates s @ [f]\<rparr>"

text \<open>
  A render of the component with something in the queue: the updaters run in order, each on
  the result of the one before, and the last result is the new \<open>conversations\<close>. The
  updaters of \<open>createConversation\<close>, \<open>deleteConversation\<close>, \<open>addMessage\<close>,
  \<open>updateLastMessage\<close> and \<open>updateConversationTitle\<close> assign their result to
  \<open>conversationsRef.current\<close> as they run, and after the render the effect on
  \<open>conversations\<close> (line 360) assigns it the new state, so the ref ends as the new state
  whatever the updaters were. With an empty queue nothing changes.
\<close>

definition render :: "provider \<Rightarrow> provider" where
  "render s =
     (if pendingUpdates s = [] then s
      else (let updated = fold (\<lambda>updater prev. updater prev) (pendingUpdates s) (conversations s)
            in s\<lparr>conversations := updated, conversationsRef := updated, pendingUpdates := []\<rparr>))"

text \<open>
  \<open>updateLastMessage\<close>: the assignment \<open>msgs[msgs.length - 1] = ...\<close> is guarded by
  \<open>c.messages.length > 0\<close>, so the index is always in range. \<open>now\<close> is the value
  \<open>Date.now()\<close> has when the updater runs, here and in \<open>addMessage\<close>.
\<close>

definition replace_last_content :: "16 word list \<Rightarrow> Message list \<Rightarrow> Message list" where
  "replace_last_content content msgs =
     msgs[length msgs - 1 := (msgs ! (length msgs - 1))\<lparr>m_content := content\<rparr>]"

definition updateLastMessage_conv :: "nat \<Rightarrow> string \<Rightarrow> 16 word list \<Rightarrow> Conversation \<Rightarrow> Conversation" where
  "updateLastMessage_conv now conversationId content c =
     (if c_id c = conversationId \<and> length (c_messages c) > 0
      then c\<lparr>c_messages := replace_last_content content (c_messages c), c_updatedAt := int now\<rparr>
      else c)"

definition updateLastMessage :: "nat \<Rightarrow> string \<Rightarrow> 16 word list \<Rightarrow> provider \<Rightarrow> provider" where
  "updateLastMessage now conversationId content =
     setConversations (map (updateLastMessage_conv now conversationId content))"

text \<open>
  \<open>createConversation\<close>: \<open>now\<close> is \<open>Date.now()\<close> (its three calls are taken to
  fall into one millisecond) and \<open>rnd\<close> is \<open>Math.random().toString(36).substr(2, 9)\<close>;
  an absent or empty title becomes \<open>New Chat\<close>.
\<close>

definition createConversation :: "nat \<Rightarrow> string \<Rightarrow> string option \<Rightarrow> provider \<Rightarrow> string \<times> provider" where
  "createConversation now rnd title s =
     (let ident = nat_toString now @ rnd;
          newConv = \<lparr>c_id = ident,
                     c_title = (case title of None \<Rightarrow> ''New Chat''
                                | Some t \<Rightarrow> if t = [] then ''New Chat'' else t),
                     c_messages = [], c_createdAt = int now, c_updatedAt = int now\<rparr>
      in (ident, scheduleSave (setConversations (\<lambda>prev. newConv # prev) s)))"

definition deleteConversation :: "string \<Rightarrow> provider \<Rightarrow> provider" where
  "deleteConversation ident s =
     scheduleSave (setConversations (filter (\<lambda>c. c_id c \<noteq> ident)) s)"

definition getConversation :: "string \<Rightarrow> provider \<Rightarrow> Conversation option" where
  "getConversation ident s = find (\<lambda>c. c_id c = ident) (conversationsRef s)"

definition addMessage_conv :: "nat \<Rightarrow> string \<Rightarrow> Message \<Rightarrow> Conversation \<Rightarrow> Conversation" where
  "addMessage_conv now conversationId message c =
     (if c_id c = conversationId
      then c\<lparr>c_messages := c_messages c @ [message], c_updatedAt := int now\<rparr>
      else c)"

definition addMessage :: "nat \<Rightarrow> string \<Rightarrow> Message \<Rightarrow> provider \<Rightarrow> provider" where
  "addMessage now conversationId message s =
     scheduleSave (setConversations (map (addMessage_conv now conversationId message)) s)"

definition updateConversationTitle :: "string \<Rightarrow> string \<Rightarrow> provider \<Rightarrow> provider" where
  "updateConversationTitle conversationId title s =
     scheduleSave (setConversations
       (map (\<lambda>c. if c_id c = conversationId then c\<lparr>c_title := title\<rparr> else c)) s)"

text \<open>
  The write shared by the timer's callback and \<open>persistNow\<close>: the whole list held by the
  ref, under the key the ref holds at that moment. \<open>ok\<close> says whether \<open>setItem\<close>
  succeeds; its failure is logged and nothing else happens.
\<close>

definition write_conversations :: "bool \<Rightarrow> string \<Rightarrow> provider \<Rightarrow> provider" where
  "write_conversations ok key s =
     (if ok
      then s\<lparr>storage := (storage s)(key \<mapsto> stringify (json_of_conversations (conversationsRef s)))\<rparr>
      else s)"

text \<open>The callback of the timer started by \<open>scheduleSave\<close>, run when the 500 ms are over.\<close>

definition saveTimer_fires :: "bool \<Rightarrow> provider \<Rightarrow> provider" where
  "saveTimer_fires ok s =
     (if \<not> saveTimer s then s
      else (let s1 = s\<lparr>saveTimer := False\<rparr>
            in case storageKeyRef s1 of None \<Rightarrow> s1 | Some key \<Rightarrow> write_conversations ok key s1))"

definition persistNow :: "bool \<Rightarrow> provider \<Rightarrow> provider" where
  "persistNow ok s =
     (case storageKeyRef s of
        None \<Rightarrow> s
      | Some key \<Rightarrow> write_conversations ok key (s\<lparr>saveTimer := False\<rparr>))"

text \<open>A run of \<open>updateLastMessage\<close> calls, each with its own \<open>Date.now()\<close>.\<close>

fun updateLastMessage_calls :: "(nat \<times> string \<times> 16 word list) list \<Rightarrow> provider \<Rightarrow> provider" where
  "updateLastMessage_calls [] s = s"
| "updateLastMessage_calls ((now, conversationId, content) # calls) s =
     updateLastMessage_calls calls (updateLastMessage now conversationId content s)"

section \<open>Identity: the storage key and loading\<close>

text \<open>\<open>storageKey\<close>: \<open>nexus_chats_\<close> and the user's id, or \<open>null\<close> without a user.\<close>

definition storageKey_of :: "string option \<Rightarrow> string option" where
  "storageKey_of uid = (case uid of None \<Rightarrow> None | Some i \<Rightarrow> Some (''nexus_chats_'' @ i))"

text \<open>How an awaited promise settles.\<close>

datatype 'a settled = Fulfilled 'a | Rejected

text \<open>
  \<open>loadConversations\<close> up to its \<open>await\<close>, and from there on. What the second half
  is given is the outcome of \<open>AsyncStorage.getItem(key)\<close>; nothing in it looks at the key
  that is current when it runs. The \<open>try\<close> branches give the new list to
  \<open>setConversations\<close> and assign it to the ref at once; the \<open>catch\<close> branch (a failed
  \<open>getItem\<close>, a text that does not parse) only calls \<open>setConversations([])\<close>. A
  stored text that parses to something that is not a \<open>Conversation[]\<close> is outside this
  model (\<open>None\<close>). \<open>isLoading\<close> is React state as well; it is written here at the
  call, since nothing below depends on the moment it changes.
\<close>

definition loadConversations_start :: "string \<Rightarrow> provider \<Rightarrow> provider" where
  "loadConversations_start key s = s\<lparr>isLoading := True, pendingLoads := pendingLoads s @ [key]\<rparr>"

definition loadConversations_resume :: "string option settled \<Rightarrow> provider \<Rightarrow> provider option" where
  "loadConversations_resume outcome s =
     map_option (\<lambda>s1. s1\<lparr>isLoading := False\<rparr>)
       (case outcome of
          Rejected \<Rightarrow> Some (setConversations (\<lambda>prev. []) s)
        | Fulfilled stored \<Rightarrow>
            (case stored of
               None \<Rightarrow> Some ((setConversations (\<lambda>prev. []) s)\<lparr>conversationsRef := []\<rparr>)
             | Some text \<Rightarrow>
                 if text = []
                 then Some ((setConversations (\<lambda>prev. []) s)\<lparr>conversationsRef := []\<rparr>)
                 else (case JSON_parse text of
                         None \<Rightarrow> Some (setConversations (\<lambda>prev. []) s)
                       | Some j \<Rightarrow>
                           (case conversations_of_json j of
                              None \<Rightarrow> None
                            | Some parsed \<Rightarrow>
                                Some ((setConversations (\<lambda>prev. parsed) s)
                                        \<lparr>conversationsRef := parsed\<rparr>)))))"

text \<open>
  The effect that depends on \<open>storageKey\<close> (lines 363 to 373): its body, and the cleanup
  that runs before the next body and at unmount.
\<close>

definition key_effect :: "provider \<Rightarrow> provider" where
  "key_effect s =
     (case storageKeyRef s of
        Some key \<Rightarrow> loadConversations_start key s
      | None \<Rightarrow> (setConversations (\<lambda>prev. []) s)\<lparr>isLoading := False\<rparr>)"

definition key_effect_cleanup :: "provider \<Rightarrow> provider" where
  "key_effect_cleanup s = s\<lparr>saveTimer := False\<rparr>"

text \<open>
  The first render of the provider for a user (or none), over a given store; and a later
  render with the user that \<open>useAuth\<close> then reports: the queue is run, the key is
  assigned to its ref, and the cleanup and the body of the effect run if the key has changed.
\<close>

definition mount :: "string option \<Rightarrow> (string \<rightharpoonup> string) \<Rightarrow> provider" where
  "mount uid store =
     key_effect \<lparr>conversations = [], pendingUpdates = [], isLoading = True,
                 conversationsRef = [], saveTimer = False,
                 storageKeyRef = storageKey_of uid, storage = store, pendingLoads = []\<rparr>"

definition render_with_user :: "string option \<Rightarrow> provider \<Rightarrow> provider" where
  "render_with_user uid s =
     (let key = storageKey_of uid; s1 = render s
      in if key = storageKeyRef s1 then s1
         else key_effect (key_effect_cleanup (s1\<lparr>storageKeyRef := key\<rparr>)))"

text \<open>
  The \<open>i\<close>-th pending \<open>getItem\<close> settles: with the value the store holds for its key, or
  with a failure. \<open>None\<close> also if there is no such pending call.
\<close>

definition load_settles :: "nat \<Rightarrow> bool \<Rightarrow> provider \<Rightarrow> provider option" where
  "load_settles i ok s =
     (if i < length (pendingLoads s)
      then loadConversations_resume
             (if ok then Fulfilled (storage s (pendingLoads s ! i)) else Rejected)
             (s\<lparr>pendingLoads := take i (pendingLoads s) @ drop (Suc i) (pendingLoads s)\<rparr>)
      else None)"

text \<open>
  The persisted state of a key: the list its stored text stands for, the empty list if there
  is no text or none that parses.
\<close>

definition persisted_set :: "(string \<rightharpoonup> string) \<Rightarrow> string \<Rightarrow> Conversation list option" where
  "persisted_set store key =
     (case store key of
        None \<Rightarrow> Some []
      | Some text \<Rightarrow>
          if text = [] then Some []
          else (case JSON_parse text of None \<Rightarrow> Some [] | Some j \<Rightarrow> conversations_of_json j))"

section \<open>Sequences of calls to the provider\<close>

datatype store_call =
    CreateConversation nat string "string option"
  | DeleteConversation string
  | AddMessageTo nat string Message

fun perform :: "store_call \<Rightarrow> provider \<Rightarrow> provider" where
  "perform (CreateConversation t rnd title) s = snd (createConversation t rnd title s)"
| "perform (DeleteConversation ident) s = deleteConversation ident s"
| "perform (AddMessageTo t conversationId message) s = addMessage t conversationId message s"

text \<open>What happens to the provider, in order: a call, or a render by React.\<close>

datatype event = Call store_call | Render

fun occurs :: "event \<Rightarrow> provider \<Rightarrow> provider" where
  "occurs (Call c) s = perform c s"
| "occurs Render s = render s"

fun occur_all :: "event list \<Rightarrow> provider \<Rightarrow> provider" where
  "occur_all [] s = s"
| "occur_all (ev # evs) s = occur_all evs (occurs ev s)"

fun calls_of :: "event list \<Rightarrow> store_call list" where
  "calls_of [] = []"
| "calls_of (Call c # evs) = c # calls_of evs"
| "calls_of (Render # evs) = calls_of evs"

text \<open>
  What the specification says each call does to the conversation set: \<open>create\<close> prepends a
  new conversation with an empty message list, \<open>delete\<close> removes the conversation with
  that id, \<open>appendMessage\<close> appends to the target conversation's message list and
  refreshes \<open>updatedAt\<close>, and does nothing if the id is unknown.
\<close>

fun spec_set_after :: "store_call \<Rightarrow> Conversation list \<Rightarrow> Conversation list" where
  "spec_set_after (CreateConversation t rnd title) cs =
     \<lparr>c_id = nat_toString t @ rnd,
      c_title = (case title of None \<Rightarrow> ''New Chat''
                 | Some given \<Rightarrow> if given = [] then ''New Chat'' else given),
      c_messages = [], c_createdAt = int t, c_updatedAt = int t\<rparr> # cs"
| "spec_set_after (DeleteConversation ident) cs = [c \<leftarrow> cs. c_id c \<noteq> ident]"
| "spec_set_after (AddMessageTo t conversationId message) cs =
     (if conversationId \<in> c_id ` set cs
      then [if c_id c = conversationId
            then c\<lparr>c_messages := c_messages c @ [message], c_updatedAt := int t\<rparr> else c.
            c \<leftarrow> cs]
      else cs)"

section \<open>Message ids\<close>

text \<open>
  \<open>generateMessageId\<close>: the module-level counter is passed in and returned incremented;
  \<open>now\<close> is \<open>Date.now()\<close> and \<open>rnd\<close> is
  \<open>Math.random().toString(36).substr(2, 9)\<close>.
\<close>

definition generateMessageId :: "nat \<Rightarrow> string \<Rightarrow> nat \<Rightarrow> string \<times> nat" where
  "generateMessageId now rnd msgCounter =
     (let c = msgCounter + 1
      in (''msg-'' @ nat_toString now @ ''-'' @ nat_toString c @ ''-'' @ rnd, c))"

text \<open>The ids of successive calls in one process, each call with its own clock and random text.\<close>

fun generateMessageId_calls :: "(nat \<times> string) list \<Rightarrow> nat \<Rightarrow> string list" where
  "generateMessageId_calls [] msgCounter = []"
| "generateMessageId_calls ((now, rnd) # envs) msgCounter =
     fst (generateMessageId now rnd msgCounter)
       # generateMessageId_calls envs (snd (generateMessageId now rnd msgCounter))"

section \<open>The chat screen: \<open>handleSend\<close>\<close>

text \<open>
  The exceptions of the try block: \<open>TypeError\<close> is what reading a property of
  \<open>null\<close> throws, \<open>Error\<close> stands for the errors the function itself creates and for
  a failed \<open>fetch\<close> or \<open>read\<close>. A \<open>SyntaxError\<close> is the \<open>None\<close> of
  \<open>JSON_parse\<close>.
\<close>

datatype exn = TypeError | Error

text \<open>
  What is truthy in a condition; \<open>None\<close> is \<open>undefined\<close>. A number is truthy
  unless it is zero as a double: \<open>m\<close> times ten to the power \<open>e\<close> is rounded to zero
  when it is at most half the least positive double, two to the power -1075.
\<close>

fun truthy :: "json \<Rightarrow> bool" where
  "truthy JNull = False"
| "truthy (JBool b) = b"
| "truthy (JNum i) = (i \<noteq> 0)"
| "truthy (JDec m e) = (10 ^ nat (- e) < \<bar>m\<bar> * 2 ^ 1075)"
| "truthy (JStr us) = (us \<noteq> [])"
| "truthy (JArr vs) = True"
| "truthy (JObj kvs) = True"

definition truthy_opt :: "json option \<Rightarrow> bool" where
  "truthy_opt v = (case v of None \<Rightarrow> False | Some j \<Rightarrow> truthy j)"

text \<open>
  \<open>parsed.content\<close> and \<open>parsed.error\<close>: reading a property of \<open>null\<close> throws, an
  object gives its member, every other value has no property of either name.
\<close>

definition get_prop :: "json \<Rightarrow> 16 word list \<Rightarrow> exn + json option" where
  "get_prop parsed k =
     (case parsed of
        JNull \<Rightarrow> Inl TypeError
      | JObj kvs \<Rightarrow> Inr (own_property kvs k)
      | _ \<Rightarrow> Inr None)"

text \<open>
  The surroundings of one call: \<open>Date.now()\<close>, the text
  \<open>Math.random().toString(36).substr(2, 9)\<close> (both held fixed during the call, since no
  property below tells two instants apart), and the platform's conversion of a value that is
  not a string when \<open>+=\<close> appends it to a string.
\<close>

record env =
  e_now :: nat
  e_rnd :: string
  e_string_of :: "json \<Rightarrow> exn + 16 word list"

text \<open>
  What \<open>handleSend\<close> does to the world outside its own variables, in order: every value
  given to the screen's \<open>messages\<close> by \<open>setMessages\<close>, and every call to the
  provider's \<open>addMessage\<close> and \<open>updateConversationTitle\<close>.
\<close>

datatype effect =
    SetMessages "Message list"
  | AddMessage string Message
  | UpdateConversationTitle string string

text \<open>
  The state of the screen (\<open>messages\<close>, \<open>inputText\<close>, \<open>isStreaming\<close>,
  \<open>showTyping\<close>), the locals \<open>fullContent\<close> and \<open>assistantAdded\<close> of
  \<open>handleSend\<close>, the module's \<open>msgCounter\<close>, and the effects of the call so far.
\<close>

record run =
  messages :: "Message list"
  inputText :: string
  isStreaming :: bool
  showTyping :: bool
  fullContent :: "16 word list"
  assistantAdded :: bool
  msgCounter :: nat
  effects :: "effect list"

definition setMessages :: "(Message list \<Rightarrow> Message list) \<Rightarrow> run \<Rightarrow> run" where
  "setMessages f st =
     (let ms = f (messages st) in st\<lparr>messages := ms, effects := effects st @ [SetMessages ms]\<rparr>)"

definition call_addMessage :: "string \<Rightarrow> Message \<Rightarrow> run \<Rightarrow> run" where
  "call_addMessage ident m st = st\<lparr>effects := effects st @ [AddMessage ident m]\<rparr>"

definition call_updateConversationTitle :: "string \<Rightarrow> string \<Rightarrow> run \<Rightarrow> run" where
  "call_updateConversationTitle ident title st =
     st\<lparr>effects := effects st @ [UpdateConversationTitle ident title]\<rparr>"

text \<open>
  A message literal \<open>{id: generateMessageId(), role, content, timestamp: Date.now()}\<close>.
\<close>

definition new_message :: "env \<Rightarrow> role \<Rightarrow> 16 word list \<Rightarrow> run \<Rightarrow> Message \<times> run" where
  "new_message e r content st =
     (let (ident, c) = generateMessageId (e_now e) (e_rnd e) (msgCounter st)
      in (\<lparr>m_id = ident, m_role = r, m_content = content, m_timestamp = int (e_now e),
           m_imageBase64 = None\<rparr>,
          st\<lparr>msgCounter := c\<rparr>))"

text \<open>
  \<open>fullContent += parsed.content\<close>: a string is appended as it is, any other value
  after the platform's conversion to a string.
\<close>

definition append_content :: "env \<Rightarrow> 16 word list \<Rightarrow> json \<Rightarrow> exn + 16 word list" where
  "append_content e full content =
     (case content of
        JStr s \<Rightarrow> Inr (full @ s)
      | _ \<Rightarrow> (case e_string_of e content of Inl x \<Rightarrow> Inl x | Inr s \<Rightarrow> Inr (full @ s)))"

text \<open>The body of \<open>if (parsed.content)\<close>.\<close>

definition on_content :: "env \<Rightarrow> json \<Rightarrow> run \<Rightarrow> (exn \<times> run) + run" where
  "on_content e content st =
     (case append_content e (fullContent st) content of
        Inl x \<Rightarrow> Inl (x, st)
      | Inr full \<Rightarrow>
          (let st1 = st\<lparr>fullContent := full\<rparr>
           in if \<not> assistantAdded st1
              then (let st2 = st1\<lparr>showTyping := False\<rparr>;
                        (assistantMsg, st3) = new_message e Assistant (fullContent st2) st2;
                        st4 = setMessages (\<lambda>prev. prev @ [assistantMsg]) st3
                    in Inr (st4\<lparr>assistantAdded := True\<rparr>))
              else Inr (setMessages (replace_last_content (fullContent st1)) st1)))"

text \<open>
  One pass of the \<open>for\<close> loop over the lines. A result \<open>Inl\<close> is an exception leaving
  the loop, together with the state it leaves behind.
\<close>

definition process_line :: "env \<Rightarrow> string \<Rightarrow> run \<Rightarrow> (exn \<times> run) + run" where
  "process_line e line st =
     (if take 6 line \<noteq> ''data: '' then Inr st
      else
        (let data = drop 6 line
         in if data = ''[DONE]'' then Inr st
            else
              (case JSON_parse data of
                 None \<Rightarrow> Inr st
               | Some parsed \<Rightarrow>
                   (case get_prop parsed (units_of ''content'') of
                      Inl x \<Rightarrow> Inl (x, st)
                    | Inr content \<Rightarrow>
                        (case (case content of
                                 None \<Rightarrow> Inr st
                               | Some c \<Rightarrow> if truthy c then on_content e c st else Inr st) of
                           Inl x \<Rightarrow> Inl x
                         | Inr st1 \<Rightarrow>
                             (case get_prop parsed (units_of ''error'') of
                                Inl x \<Rightarrow> Inl (x, st1)
                              | Inr err \<Rightarrow>
                                  if truthy_opt err then Inl (Error, st1) else Inr st1))))))"

fun process_lines :: "env \<Rightarrow> string list \<Rightarrow> run \<Rightarrow> (exn \<times> run) + run" where
  "process_lines e [] st = Inr st"
| "process_lines e (line # lines) st =
     (case process_line e line st of
        Inl x \<Rightarrow> Inl x
      | Inr st1 \<Rightarrow> process_lines e lines st1)"

text \<open>
  The body that \<open>reader.read()\<close> delivers: each element is a chunk, already decoded to
  text by the streaming decoder, or a read that fails; the end of the list is
  \<open>done\<close>.
\<close>

datatype read_result = Chunk string | ReadFails

fun read_loop :: "env \<Rightarrow> read_result list \<Rightarrow> string \<Rightarrow> run \<Rightarrow> (exn \<times> run) + run" where
  "read_loop e [] buffer st = Inr st"
| "read_loop e (ReadFails # rs) buffer st = Inl (Error, st)"
| "read_loop e (Chunk v # rs) buffer st =
     (let buffer1 = buffer @ v;
          (popped, lines) = pop (split_nl buffer1);
          buffer2 = (case popped of None \<Rightarrow> [] | Some l \<Rightarrow> if l = [] then [] else l)
      in case process_lines e lines st of
           Inl x \<Rightarrow> Inl x
         | Inr st1 \<Rightarrow> read_loop e rs buffer2 st1)"

text \<open>
  The answer of \<open>fetch\<close>: it fails, or it gives a response with its \<open>ok\<close> flag and,
  if there is one, the reader of its body.
\<close>

datatype response = FetchFails | Response bool "read_result list option"

text \<open>Lines 166 to 179: what follows the loop when it ends without an exception.\<close>

definition on_complete :: "env \<Rightarrow> string \<Rightarrow> string \<Rightarrow> Message list \<Rightarrow> run \<Rightarrow> run" where
  "on_complete e ident text currentMessages st =
     (if fullContent st \<noteq> []
      then (let (assistantFinal, st1) = new_message e Assistant (fullContent st) st;
                st2 = call_addMessage ident assistantFinal st1
            in if length currentMessages = 0
               then call_updateConversationTitle ident
                      (if length text > 30 then take 30 text @ ''...'' else text) st2
               else st2)
      else st)"

text \<open>Lines 180 to 191: the \<open>catch\<close> block.\<close>

definition on_error :: "env \<Rightarrow> string \<Rightarrow> run \<Rightarrow> run" where
  "on_error e ident st =
     (let st1 = st\<lparr>showTyping := False\<rparr>;
          (errorMsg, st2) =
             new_message e Assistant (units_of ''Sorry, something went wrong. Please try again.'') st1;
          st3 = (if \<not> assistantAdded st2 then setMessages (\<lambda>prev. prev @ [errorMsg]) st2
                 else st2)
      in call_addMessage ident errorMsg st3)"

text \<open>Lines 96 to 164: the \<open>try\<close> block up to the end of the loop.\<close>

definition stream_response :: "env \<Rightarrow> response \<Rightarrow> run \<Rightarrow> (exn \<times> run) + run" where
  "stream_response e resp st =
     (case resp of
        FetchFails \<Rightarrow> Inl (Error, st)
      | Response ok body \<Rightarrow>
          if \<not> ok then Inl (Error, st)
          else (case body of
                  None \<Rightarrow> Inl (Error, st)
                | Some rs \<Rightarrow> read_loop e rs [] st))"

text \<open>
  \<open>handleSend\<close> for the conversation \<open>ident\<close>. The haptic feedback is left out.
\<close>

definition handleSend :: "env \<Rightarrow> string \<Rightarrow> response \<Rightarrow> run \<Rightarrow> run" where
  "handleSend e ident resp st0 =
     (let text = trim (inputText st0)
      in if text = [] \<or> isStreaming st0 then st0
         else
           (let st1 = st0\<lparr>inputText := [], effects := []\<rparr>;
                currentMessages = messages st1;
                (userMessage, st2) = new_message e User (units_of text) st1;
                newMessages = currentMessages @ [userMessage];
                st3 = setMessages (\<lambda>prev. newMessages) st2;
                st4 = call_addMessage ident userMessage st3;
                st5 = st4\<lparr>isStreaming := True, showTyping := True,
                          fullContent := [], assistantAdded := False\<rparr>;
                st6 = (case stream_response e resp st5 of
                         Inr st \<Rightarrow> on_complete e ident text currentMessages st
                       | Inl (x, st) \<Rightarrow> on_error e ident st)
            in st6\<lparr>isStreaming := False, showTyping := False\<rparr>))"

text \<open>
  What the screen shows of the answer while the call runs: the content of the trailing
  assistant message at every \<open>setMessages\<close>. And the assistant messages handed to
  \<open>addMessage\<close>.
\<close>

fun content_observations :: "effect list \<Rightarrow> 16 word list list" where
  "content_observations [] = []"
| "content_observations (SetMessages ms # effs) =
     (if ms \<noteq> [] \<and> m_role (last ms) = Assistant
      then m_content (last ms) # content_observations effs
      else content_observations effs)"
| "content_observations (eff # effs) = content_observations effs"

fun persisted_assistant :: "effect list \<Rightarrow> Message list" where
  "persisted_assistant [] = []"
| "persisted_assistant (AddMessage ident m # effs) =
     (if m_role m = Assistant then m # persisted_assistant effs else persisted_assistant effs)"
| "persisted_assistant (eff # effs) = persisted_assistant effs"

section \<open>The credential directory (AuthContext)\<close>

record User =
  u_id :: string
  u_username :: string

text \<open>
  The state of \<open>AuthProvider\<close>: the current user and the key-value store. The directory under
  \<open>nexus_users\<close> is an object from user names to \<open>{password, id}\<close>, kept here as the
  list of its members in order.
\<close>

record auth =
  a_user :: "User option"
  a_storage :: "string \<rightharpoonup> string"

definition USERS_KEY :: string where
  "USERS_KEY = ''nexus_users''"

definition CURRENT_USER_KEY :: string where
  "CURRENT_USER_KEY = ''nexus_current_user''"

definition json_of_user :: "User \<Rightarrow> json" where
  "json_of_user u =
     JObj [(units_of ''id'', JStr (units_of (u_id u))),
           (units_of ''username'', JStr (units_of (u_username u)))]"

definition json_of_users :: "(string \<times> string \<times> string) list \<Rightarrow> json" where
  "json_of_users users =
     JObj (map (\<lambda>(name, password, ident).
                  (units_of name,
                   JObj [(units_of ''password'', JStr (units_of password)),
                         (units_of ''id'', JStr (units_of ident))])) users)"

definition user_entry_of_json :: "16 word list \<times> json \<Rightarrow> (string \<times> string \<times> string) option" where
  "user_entry_of_json m =
     (case snd m of
        JObj kvs \<Rightarrow>
          (case (narrow (fst m), string_member kvs ''password'', string_member kvs ''id'') of
             (Some name, Some password, Some ident) \<Rightarrow> Some (name, password, ident)
           | _ \<Rightarrow> None)
      | _ \<Rightarrow> None)"

definition users_of_json :: "json \<Rightarrow> (string \<times> string \<times> string) list option" where
  "users_of_json j = (case j of JObj ms \<Rightarrow> those_map user_entry_of_json ms | _ \<Rightarrow> None)"

text \<open>
  \<open>getUsers\<close>: the parsed directory, the empty object if nothing is stored or the text does
  not parse. \<open>None\<close> if the text parses to something that is not a directory of names,
  passwords and ids of 8-bit characters (outside this model).
\<close>

definition getUsers :: "auth \<Rightarrow> (string \<times> string \<times> string) list option" where
  "getUsers a =
     (case a_storage a USERS_KEY of
        None \<Rightarrow> Some []
      | Some text \<Rightarrow>
          if text = [] then Some []
          else (case JSON_parse text of None \<Rightarrow> Some [] | Some j \<Rightarrow> users_of_json j))"

text \<open>
  \<open>users[trimmed]\<close>: the object's own member of that name (the last one of two), or else
  what every object inherits under that name, or \<open>undefined\<close>.
\<close>

datatype user_entry = Absent | Inherited | Entry string string

definition object_prototype_names :: "string list" where
  "object_prototype_names =
     [''constructor'', ''__defineGetter__'', ''__defineSetter__'', ''hasOwnProperty'',
      ''__lookupGetter__'', ''__lookupSetter__'', ''isPrototypeOf'', ''propertyIsEnumerable'',
      ''toString'', ''valueOf'', ''__proto__'', ''toLocaleString'']"

definition lookup_user :: "(string \<times> string \<times> string) list \<Rightarrow> string \<Rightarrow> user_entry" where
  "lookup_user users name =
     (case map_of (rev users) name of
        Some (password, ident) \<Rightarrow> Entry password ident
      | None \<Rightarrow> if name \<in> set object_prototype_names then Inherited else Absent)"

datatype auth_result = Success | Failure string

definition set_current_user :: "User \<Rightarrow> auth \<Rightarrow> auth" where
  "set_current_user u a =
     a\<lparr>a_storage := (a_storage a)(CURRENT_USER_KEY \<mapsto> stringify (json_of_user u)),
       a_user := Some u\<rparr>"

definition login :: "string \<Rightarrow> string \<Rightarrow> auth \<Rightarrow> (auth_result \<times> auth) option" where
  "login username password a =
     (let trimmed = toLowerCase (trim username)
      in if trimmed = [] \<or> password = []
         then Some (Failure ''Please enter both username and password'', a)
         else
           (case getUsers a of
              None \<Rightarrow> None
            | Some users \<Rightarrow>
                (case lookup_user users trimmed of
                   Absent \<Rightarrow> Some (Failure ''Account not found. Please sign up first.'', a)
                 | Inherited \<Rightarrow> Some (Failure ''Incorrect password'', a)
                 | Entry stored ident \<Rightarrow>
                     if stored \<noteq> password then Some (Failure ''Incorrect password'', a)
                     else Some (Success,
                                set_current_user \<lparr>u_id = ident, u_username = trimmed\<rparr> a))))"

text \<open>
  \<open>signup\<close>: \<open>t\<close> is \<open>Date.now()\<close> and \<open>rnd\<close> is
  \<open>Math.random().toString(36).substr(2, 9)\<close>.
\<close>

definition signup :: "nat \<Rightarrow> string \<Rightarrow> string \<Rightarrow> string \<Rightarrow> auth \<Rightarrow> (auth_result \<times> auth) option" where
  "signup t rnd username password a =
     (let trimmed = toLowerCase (trim username)
      in if trimmed = [] \<or> password = []
         then Some (Failure ''Please enter both username and password'', a)
         else if length trimmed < 3
         then Some (Failure ''Username must be at least 3 characters'', a)
         else if length password < 4
         then Some (Failure ''Password must be at least 4 characters'', a)
         else
           (case getUsers a of
              None \<Rightarrow> None
            | Some users \<Rightarrow>
                if lookup_user users trimmed \<noteq> Absent
                then Some (Failure ''Username already exists'', a)
                else
                  (let ident = nat_toString t @ rnd;
                       users1 = users @ [(trimmed, password, ident)];
                       a1 = a\<lparr>a_storage :=
                                (a_storage a)(USERS_KEY \<mapsto> stringify (json_of_users users1))\<rparr>
                   in Some (Success,
                            set_current_user \<lparr>u_id = ident, u_username = trimmed\<rparr> a1))))"

text \<open>\<open>logout\<close>: the stored current user is removed and the state is set to \<open>null\<close>.\<close>

definition logout :: "auth \<Rightarrow> auth" where
  "logout a = a\<lparr>a_storage := (a_storage a)(CURRENT_USER_KEY := None), a_user := None\<rparr>"

section \<open>Example values\<close>

definition demo_message :: Message where
  "demo_message = \<lparr>m_id = ''m1'', m_role = Assistant, m_content = units_of ''Hi'',
                    m_timestamp = 5, m_imageBase64 = None\<rparr>"

definition demo_provider :: provider where
  "demo_provider =
     \<lparr>conversations =
        [\<lparr>c_id = ''a'', c_title = ''New Chat'', c_messages = [demo_message], c_createdAt = 1,
          c_updatedAt = 5\<rparr>,
         \<lparr>c_id = ''b'', c_title = ''New Chat'', c_messages = [], c_createdAt = 2,
          c_updatedAt = 2\<rparr>],
      pendingUpdates = [],
      isLoading = False,
      conversationsRef = [],
      saveTimer = False, storageKeyRef = Some ''nexus_chats_u1'', storage = Map.empty,
      pendingLoads = []\<rparr>"

definition demo_env :: env where
  "demo_env =
     \<lparr>e_now = 1000, e_rnd = ''r4nd0m'', e_string_of = (\<lambda>j. Inr (units_of (stringify j)))\<rparr>"

definition demo_run :: run where
  "demo_run =
     \<lparr>messages = [], inputText = '' Hello '', isStreaming = False, showTyping = False,
      fullContent = [], assistantAdded = False, msgCounter = 0, effects = []\<rparr>"

definition frame_Hi :: string where
  \<open>frame_Hi = ''data: {"content":"Hi"}''\<close>

definition frame_Hi_there :: string where
  \<open>frame_Hi_there = ''data: {"content":"Hi there"}''\<close>

definition frame_DONE :: string where
  "frame_DONE = ''data: [DONE]''"

definition frame_malformed :: string where
  "frame_malformed = ''data: {not json''"

definition frame_error :: string where
  \<open>frame_error = ''data: {"error":"boom"}''\<close>

text \<open>
  An error frame with a number that is not an integer, and a content frame whose string has
  an escaped code unit above 255.
\<close>

definition frame_rate_limited :: string where
  \<open>frame_rate_limited = ''data: {"error":"rate limited","retry_after":1.5}''\<close>

definition frame_escaped :: string where
  \<open>frame_escaped = ''data: {"content":"'' @ [CHR 0x5C] @ ''u4f60"}''\<close>

text \<open>The three lines of the example stream, each ended by a newline.\<close>

definition sample_stream :: string where
  "sample_stream =
     frame_Hi @ [CHR 0x0A] @ frame_Hi_there @ [CHR 0x0A] @ frame_DONE @ [CHR 0x0A]"

definition demo_loaded :: provider where
  "demo_loaded =
     \<lparr>conversations =
        [\<lparr>c_id = ''a'', c_title = ''New Chat'', c_messages = [demo_message], c_createdAt = 1,
          c_updatedAt = 5\<rparr>],
      pendingUpdates = [],
      isLoading = False,
      conversationsRef =
        [\<lparr>c_id = ''a'', c_title = ''New Chat'', c_messages = [demo_message], c_createdAt = 1,
          c_updatedAt = 5\<rparr>],
      saveTimer = False, storageKeyRef = Some ''nexus_chats_u1'', storage = Map.empty,
      pendingLoads = []\<rparr>"

definition demo_events :: "event list" where
  "demo_events =
     [Call (CreateConversation 7 ''x'' None), Render, Call (AddMessageTo 8 ''7x'' demo_message),
      Call (DeleteConversation ''a'')]"

text \<open>A store that holds one conversation for the user \<open>A\<close> and nothing for \<open>B\<close>.\<close>

definition demo_store :: "string \<rightharpoonup> string" where
  "demo_store =
     [''nexus_chats_A'' \<mapsto> stringify (json_of_conversations (conversations demo_loaded))]"

definition demo_auth :: auth where
  "demo_auth = \<lparr>a_user = None, a_storage = Map.empty\<rparr>"

section \<open>Verified properties\<close>

subsection \<open>Code units\<close>

lemma word_of_unat: "unat (u :: 16 word) = n \<Longrightarrow> word_of_nat n = u"
  by auto

lemma unat_lt_65536: "unat (u :: 16 word) < 65536"
  using unsigned_less [of u, where ?'a = nat] by simp

lemma unat_unit_of_char: "unat (unit_of_char c) = of_char c"
proof -
  have "(of_char c :: nat) < 2 ^ 16"
    by (rule less_trans [OF nat_of_char_less_256]) simp
  then show ?thesis
    unfolding unit_of_char_def by (simp add: unat_of_nat)
qed

lemma narrow_units_of: "narrow (units_of s) = Some s"
  by (induction s) (simp_all add: units_of_def unat_unit_of_char)

lemma units_of_inj: "units_of a = units_of b \<Longrightarrow> a = b"
proof -
  assume "units_of a = units_of b"
  then have "narrow (units_of a) = narrow (units_of b)" by (rule arg_cong)
  then show "a = b" by (simp only: narrow_units_of option.inject)
qed

subsection \<open>Reading back what \<open>stringify\<close> prints: strings\<close>

lemma hex_value_hex_digit: "d < 16 \<Longrightarrow> hex_value (hex_digit d) = Some d"
  by (simp add: hex_value_def hex_digit_def Let_def)

lemma hex_value_zero: "hex_value CHR ''0'' = Some 0"
  by (simp add: hex_value_def)

lemma hex_digits_value:
  "(n :: nat) < 65536 \<Longrightarrow>
     n div 4096 < 16 \<and> n div 256 mod 16 < 16 \<and> n div 16 mod 16 < 16 \<and> n mod 16 < 16 \<and>
     4096 * (n div 4096) + 256 * (n div 256 mod 16) + 16 * (n div 16 mod 16) + n mod 16 = n"
proof -
  assume n: "n < 65536"
  have a: "n div 4096 < 16" using n by simp
  have d2: "n div 16 div 16 = n div 256" by (simp add: div_mult2_eq [symmetric])
  have d3: "n div 256 div 16 = n div 4096" by (simp add: div_mult2_eq [symmetric])
  have e1: "n = 16 * (n div 16) + n mod 16" by simp
  have e2: "n div 16 = 16 * (n div 256) + n div 16 mod 16"
    using mult_div_mod_eq [of 16 "n div 16"] unfolding d2 by simp
  have e3: "n div 256 = 16 * (n div 4096) + n div 256 mod 16"
    using mult_div_mod_eq [of 16 "n div 256"] unfolding d3 by simp
  from e1 e2 e3 have "4096 * (n div 4096) + 256 * (n div 256 mod 16) + 16 * (n div 16 mod 16) + n mod 16 = n"
    by linarith
  with a show ?thesis by simp
qed

lemma unit_of_char_eq: "unat u = of_char c \<Longrightarrow> unit_of_char c = u"
  unfolding unit_of_char_def by (rule word_of_unat)

lemma q_esc:
  assumes "unat u = of_char c" and "unescape e = Some c" and "e \<noteq> CHR ''u''"
  shows "parse_chars ([CHR 0x5C, e] @ rest) =
     (case parse_chars rest of None \<Rightarrow> None | Some (str, r) \<Rightarrow> Some (u # str, r))"
  using assms(2,3) unit_of_char_eq [OF assms(1)] by (simp split: option.splits)

lemma q_ctl:
  assumes "unat u < 32"
  shows "parse_chars ([CHR 0x5C, CHR ''u'', CHR ''0'', CHR ''0'', hex_digit (unat u div 16),
            hex_digit (unat u mod 16)] @ rest) =
     (case parse_chars rest of None \<Rightarrow> None | Some (str, r) \<Rightarrow> Some (u # str, r))"
proof -
  from assms have d: "unat u div 16 < 16" "unat u mod 16 < 16" by simp_all
  have v: "word_of_nat (16 * (unat u div 16) + unat u mod 16) = u"
    by (rule word_of_unat) simp
  show ?thesis
    using v by (simp add: hex_value_hex_digit [OF d(1)] hex_value_hex_digit [OF d(2)] hex_value_zero
        split: option.splits)
qed

lemma q_wide:
  "parse_chars ([CHR 0x5C, CHR ''u'', hex_digit (unat u div 4096), hex_digit (unat u div 256 mod 16),
            hex_digit (unat u div 16 mod 16), hex_digit (unat u mod 16)] @ rest) =
     (case parse_chars rest of None \<Rightarrow> None | Some (str, r) \<Rightarrow> Some ((u :: 16 word) # str, r))"
proof -
  note h = hex_digits_value [OF unat_lt_65536 [of u]]
  have v: "word_of_nat (4096 * (unat u div 4096) + 256 * (unat u div 256 mod 16)
      + 16 * (unat u div 16 mod 16) + unat u mod 16) = u"
    by (rule word_of_unat) (simp only: h)
  from h have d: "hex_value (hex_digit (unat u div 4096)) = Some (unat u div 4096)"
    "hex_value (hex_digit (unat u div 256 mod 16)) = Some (unat u div 256 mod 16)"
    "hex_value (hex_digit (unat u div 16 mod 16)) = Some (unat u div 16 mod 16)"
    "hex_value (hex_digit (unat u mod 16)) = Some (unat u mod 16)"
    by (simp_all only: hex_value_hex_digit)
  show ?thesis
    by (simp only: parse_chars.simps append.simps d v list.case option.case prod.case)
       (simp split: option.splits)
qed

lemma q_lit:
  assumes "32 \<le> unat u" "unat u < 256" "unat u \<noteq> 0x22" "unat u \<noteq> 0x5C"
  shows "parse_chars ([char_of (unat u)] @ rest) =
     (case parse_chars rest of None \<Rightarrow> None | Some (str, r) \<Rightarrow> Some (u # str, r))"
proof -
  let ?c = "char_of (unat u) :: char"
  have c: "(of_char ?c :: nat) = unat u" using assms by simp
  have k: "unat u = of_char d" if "?c = d" for d
  proof -
    from that have "(of_char ?c :: nat) = of_char d" by (rule arg_cong)
    with c show ?thesis by simp
  qed
  have ne: "?c \<noteq> CHR 0x22" "?c \<noteq> CHR 0x5C"
    using k [of "CHR 0x22"] k [of "CHR 0x5C"] assms(3,4) by auto
  have u: "unit_of_char ?c = u" by (rule unit_of_char_eq) (simp only: c)
  have ge: "\<not> (of_char ?c :: nat) < 32" using c assms by simp
  show ?thesis using ne u ge by (simp split: option.splits)
qed

lemma parse_chars_quote_unit:
  "parse_chars (quote_unit u @ rest) =
     (case parse_chars rest of None \<Rightarrow> None | Some (str, r) \<Rightarrow> Some (u # str, r))"
proof -
  let ?n = "unat u"
  consider (quote) "?n = 0x22" | (backslash) "?n = 0x5C" | (b) "?n = 0x08" | (f) "?n = 0x0C"
    | (n) "?n = 0x0A" | (r) "?n = 0x0D" | (t) "?n = 0x09"
    | (ctl) "?n < 32" "?n \<noteq> 0x08" "?n \<noteq> 0x0C" "?n \<noteq> 0x0A" "?n \<noteq> 0x0D" "?n \<noteq> 0x09"
    | (lit) "32 \<le> ?n" "?n < 256" "?n \<noteq> 0x22" "?n \<noteq> 0x5C"
    | (wide) "256 \<le> ?n"
    by linarith
  then show ?thesis
  proof cases
    case quote
    then have q: "quote_unit u = [CHR 0x5C, CHR 0x22]" by (simp add: quote_unit_def)
    show ?thesis unfolding q by (rule q_esc [where c = "CHR 0x22"]) (simp_all add: quote unescape_def)
  next
    case backslash
    then have q: "quote_unit u = [CHR 0x5C, CHR 0x5C]" by (simp add: quote_unit_def)
    show ?thesis unfolding q
      by (rule q_esc [where c = "CHR 0x5C"]) (simp_all add: backslash unescape_def)
  next
    case b
    then have q: "quote_unit u = [CHR 0x5C, CHR ''b'']" by (simp add: quote_unit_def)
    show ?thesis unfolding q by (rule q_esc [where c = "CHR 0x08"]) (simp_all add: b unescape_def)
  next
    case f
    then have q: "quote_unit u = [CHR 0x5C, CHR ''f'']" by (simp add: quote_unit_def)
    show ?thesis unfolding q by (rule q_esc [where c = "CHR 0x0C"]) (simp_all add: f unescape_def)
  next
    case n
    then have q: "quote_unit u = [CHR 0x5C, CHR ''n'']" by (simp add: quote_unit_def)
    show ?thesis unfolding q by (rule q_esc [where c = "CHR 0x0A"]) (simp_all add: n unescape_def)
  next
    case r
    then have q: "quote_unit u = [CHR 0x5C, CHR ''r'']" by (simp add: quote_unit_def)
    show ?thesis unfolding q by (rule q_esc [where c = "CHR 0x0D"]) (simp_all add: r unescape_def)
  next
    case t
    then have q: "quote_unit u = [CHR 0x5C, CHR ''t'']" by (simp add: quote_unit_def)
    show ?thesis unfolding q by (rule q_esc [where c = "CHR 0x09"]) (simp_all add: t unescape_def)
  next
    case ctl
    then have q: "quote_unit u = [CHR 0x5C, CHR ''u'', CHR ''0'', CHR ''0'',
        hex_digit (?n div 16), hex_digit (?n mod 16)]"
      by (simp add: quote_unit_def Let_def)
    show ?thesis unfolding q by (rule q_ctl [OF ctl(1)])
  next
    case lit
    then have q: "quote_unit u = [char_of ?n]" by (simp add: quote_unit_def Let_def)
    show ?thesis unfolding q by (rule q_lit [OF lit])
  next
    case wide
    then have q: "quote_unit u = [CHR 0x5C, CHR ''u'', hex_digit (?n div 4096),
        hex_digit (?n div 256 mod 16), hex_digit (?n div 16 mod 16), hex_digit (?n mod 16)]"
      by (simp add: quote_unit_def Let_def)
    show ?thesis unfolding q by (rule q_wide)
  qed
qed

lemma parse_chars_quoted:
  "parse_chars (concat (map quote_unit us) @ CHR 0x22 # rest) = Some (us, rest)"
  by (induction us) (simp_all add: parse_chars_quote_unit)

subsection \<open>Decimal digits\<close>

lemma is_digit_digit_char: "d < 10 \<Longrightarrow> is_digit (digit_char d)"
  by (simp add: is_digit_def digit_char_def)

lemma digit_value_digit_char: "d < 10 \<Longrightarrow> digit_value (digit_char d) = d"
  by (simp add: digit_value_def digit_char_def)

lemma nat_toString_digits: "\<forall>c \<in> set (nat_toString n). is_digit c"
proof (induction n rule: nat_toString.induct)
  case (1 n)
  show ?case
  proof (cases "n < 10")
    case True
    then show ?thesis by (subst nat_toString.simps) (simp add: is_digit_digit_char)
  next
    case False
    with 1 show ?thesis by (subst nat_toString.simps) (simp add: is_digit_digit_char)
  qed
qed

lemma nat_toString_not_Nil: "nat_toString n \<noteq> []"
  by (subst nat_toString.simps) simp

lemma digits_value_snoc: "digits_value (ds @ [c]) = 10 * digits_value ds + digit_value c"
  by (simp add: digits_value_def)

lemma digits_value_nat_toString: "digits_value (nat_toString n) = n"
proof (induction n rule: nat_toString.induct)
  case (1 n)
  show ?case
  proof (cases "n < 10")
    case True
    then show ?thesis
      by (subst nat_toString.simps) (simp add: digits_value_def digit_value_digit_char)
  next
    case False
    with 1 have "digits_value (nat_toString (n div 10)) = n div 10" by simp
    with False show ?thesis
      by (subst nat_toString.simps) (simp add: digits_value_snoc digit_value_digit_char)
  qed
qed

lemma nat_toString_inj:
  assumes "nat_toString m = nat_toString n"
  shows "m = n"
proof -
  from assms have "digits_value (nat_toString m) = digits_value (nat_toString n)" by simp
  then show ?thesis by (simp add: digits_value_nat_toString)
qed

lemma dash_not_digit: "\<not> is_digit CHR ''-''"
  by (simp add: is_digit_def)

lemma nat_toString_no_dash: "CHR ''-'' \<notin> set (nat_toString n)"
  using nat_toString_digits dash_not_digit by blast

subsection \<open>Reading back numbers\<close>

lemma follow_ok_not_digit: "follow_ok rest \<Longrightarrow> rest \<noteq> [] \<Longrightarrow> \<not> is_digit (hd rest)"
  by (auto simp: follow_ok_def is_digit_def)

lemma takeWhile_digits:
  assumes "\<forall>c \<in> set ds. is_digit c" and "follow_ok rest"
  shows "takeWhile is_digit (ds @ rest) = ds" and "dropWhile is_digit (ds @ rest) = rest"
proof -
  have t: "takeWhile is_digit rest = []"
    using follow_ok_not_digit [OF assms(2)] by (cases rest) auto
  have d: "dropWhile is_digit rest = rest"
    using follow_ok_not_digit [OF assms(2)] by (cases rest) auto
  from assms(1) t show "takeWhile is_digit (ds @ rest) = ds"
    by (simp add: takeWhile_append2)
  from assms(1) d show "dropWhile is_digit (ds @ rest) = rest"
    by (simp add: dropWhile_append2)
qed

lemma digit_char_zero: "d < 10 \<Longrightarrow> digit_char d = CHR ''0'' \<Longrightarrow> d = 0"
proof -
  assume "d < 10" and "digit_char d = CHR ''0''"
  then have "(of_char (digit_char d) :: nat) = of_char CHR ''0''" by simp
  with \<open>d < 10\<close> show "d = 0" by (simp add: digit_char_def)
qed

lemma hd_nat_toString: "0 < n \<Longrightarrow> hd (nat_toString n) \<noteq> CHR ''0''"
proof (induction n rule: nat_toString.induct)
  case (1 n)
  show ?case
  proof (cases "n < 10")
    case True
    with 1(2) digit_char_zero [of n] show ?thesis
      by (subst nat_toString.simps) auto
  next
    case False
    then have "0 < n div 10" by simp
    with 1(1) False have "hd (nat_toString (n div 10)) \<noteq> CHR ''0''" by simp
    with False nat_toString_not_Nil [of "n div 10"] show ?thesis
      by (subst nat_toString.simps) simp
  qed
qed

lemma nat_toString_no_leading_zero:
  "\<not> (1 < length (nat_toString n) \<and> hd (nat_toString n) = CHR ''0'')"
proof (cases "n = 0")
  case True
  then show ?thesis by (subst nat_toString.simps) simp
next
  case False
  then show ?thesis using hd_nat_toString [of n] by simp
qed

lemma follow_ok_no_fraction:
  "follow_ok rest \<Longrightarrow>
     \<not> (rest \<noteq> [] \<and> (hd rest = CHR ''.'' \<or> hd rest = CHR ''e'' \<or> hd rest = CHR ''E''))"
  by (auto simp: follow_ok_def)

lemma hd_nat_toString_digit: "is_digit (hd (nat_toString n))"
  using nat_toString_digits [of n] nat_toString_not_Nil [of n]
  by (cases "nat_toString n") auto

lemma parse_number_digits:
  assumes "\<forall>c \<in> set ds. is_digit c" and "ds \<noteq> []"
    and "\<not> (1 < length ds \<and> hd ds = CHR ''0'')" and "follow_ok rest"
  shows "parse_number (CHR ''-'' # ds @ rest) = Some (JNum (- int (digits_value ds)), rest)"
    and "parse_number (ds @ rest) = Some (JNum (int (digits_value ds)), rest)"
proof -
  note tw = takeWhile_digits [OF assms(1,4)]
  have nodot: "(rest \<noteq> [] \<and> hd rest = CHR ''.'') = False"
    using follow_ok_no_fraction [OF assms(4)] by blast
  have noexp: "(rest \<noteq> [] \<and> (hd rest = CHR ''e'' \<or> hd rest = CHR ''E'')) = False"
    using follow_ok_no_fraction [OF assms(4)] by blast
  have lead: "(Suc 0 < length ds \<and> hd ds = CHR ''0'') = False"
    using assms(3) by simp
  have nodash: "(ds @ rest \<noteq> [] \<and> hd (ds @ rest) = CHR ''-'') = False"
    using assms(1,2) dash_not_digit by (cases ds) auto
  show "parse_number (CHR ''-'' # ds @ rest) = Some (JNum (- int (digits_value ds)), rest)"
    unfolding parse_number_def
    by (simp add: Let_def tw nodot noexp lead assms(2) decimal_value_def)
  show "parse_number (ds @ rest) = Some (JNum (int (digits_value ds)), rest)"
    unfolding parse_number_def
    by (simp only: nodash Let_def if_False tw nodot noexp) (simp add: lead assms(2) decimal_value_def)
qed

lemma parse_number_int_toString:
  assumes "follow_ok rest"
  shows "parse_number (int_toString i @ rest) = Some (JNum i, rest)"
proof (cases "i < 0")
  case True
  let ?ds = "nat_toString (nat (- i))"
  have s: "int_toString i @ rest = CHR ''-'' # ?ds @ rest"
    using True by (simp add: int_toString_def)
  have v: "- int (digits_value ?ds) = i"
    using True by (simp add: digits_value_nat_toString)
  show ?thesis
    unfolding s
    using parse_number_digits(1) [OF nat_toString_digits nat_toString_not_Nil
        nat_toString_no_leading_zero assms, of "nat (- i)"]
    by (simp only: v)
next
  case False
  let ?ds = "nat_toString (nat i)"
  have s: "int_toString i @ rest = ?ds @ rest"
    using False by (simp add: int_toString_def)
  have v: "int (digits_value ?ds) = i"
    using False by (simp add: digits_value_nat_toString)
  show ?thesis
    unfolding s
    using parse_number_digits(2) [OF nat_toString_digits nat_toString_not_Nil
        nat_toString_no_leading_zero assms, of "nat i"]
    by (simp only: v)
qed

subsection \<open>Reading back values\<close>

lemma value_start_facts:
  "value_start c \<Longrightarrow> \<not> is_ws c \<and> c \<noteq> CHR '']'' \<and> c \<noteq> CHR ''}'' \<and> c \<noteq> CHR '',''"
  by (auto simp: value_start_def is_ws_def is_digit_def)

lemma int_toString_start: "\<exists>c cs. int_toString i = c # cs \<and> (c = CHR ''-'' \<or> is_digit c)"
proof (cases "i < 0")
  case True
  then show ?thesis by (simp add: int_toString_def)
next
  case False
  obtain c cs where "nat_toString (nat i) = c # cs"
    using nat_toString_not_Nil [of "nat i"] by (cases "nat_toString (nat i)") auto
  with False hd_nat_toString_digit [of "nat i"] show ?thesis by (simp add: int_toString_def)
qed

lemma stringify_start: "\<exists>c cs. stringify v = c # cs \<and> value_start c"
proof (cases v)
  case (JNum i)
  from int_toString_start [of i] obtain c cs
    where "int_toString i = c # cs" "c = CHR ''-'' \<or> is_digit c" by blast
  with JNum show ?thesis by (auto simp: value_start_def)
next
  case (JDec m e)
  from int_toString_start [of m] obtain c cs
    where "int_toString m = c # cs" "c = CHR ''-'' \<or> is_digit c" by blast
  with JDec show ?thesis by (auto simp: value_start_def)
qed (auto simp: value_start_def quote_string_def)

lemma stringify_elements_start:
  "vs \<noteq> [] \<Longrightarrow> \<exists>c cs. stringify_elements vs = c # cs \<and> value_start c"
proof (cases vs)
  case Nil
  then show "vs \<noteq> [] \<Longrightarrow> ?thesis" by simp
next
  case (Cons v ws)
  from stringify_start [of v] obtain c cs where "stringify v = c # cs" "value_start c" by blast
  with Cons show ?thesis by (cases ws) auto
qed

lemma stringify_members_start:
  "ms \<noteq> [] \<Longrightarrow> \<exists>cs. stringify_members ms = CHR 0x22 # cs"
proof (cases ms)
  case Nil
  then show "ms \<noteq> [] \<Longrightarrow> ?thesis" by simp
next
  case (Cons m ws)
  then show ?thesis by (cases m; cases ws) (auto simp: quote_string_def)
qed

lemma skip_ws_Cons: "\<not> is_ws c \<Longrightarrow> skip_ws (c # cs) = c # cs"
  by (simp add: skip_ws_def)

lemma skip_ws_stringify: "skip_ws (stringify v @ rest) = stringify v @ rest"
  using stringify_start [of v] value_start_facts by (auto simp: skip_ws_Cons)

lemma skip_ws_elements:
  "vs \<noteq> [] \<Longrightarrow> skip_ws (stringify_elements vs @ rest) = stringify_elements vs @ rest"
  using stringify_elements_start [of vs] value_start_facts by (auto simp: skip_ws_Cons)

lemma skip_ws_members:
  "ms \<noteq> [] \<Longrightarrow> skip_ws (stringify_members ms @ rest) = stringify_members ms @ rest"
  using stringify_members_start [of ms] by (auto simp: skip_ws_Cons is_ws_def)

lemma skip_ws_punct:
  "skip_ws (CHR '']'' # rest) = CHR '']'' # rest"
  "skip_ws (CHR ''}'' # rest) = CHR ''}'' # rest"
  "skip_ws (CHR '','' # rest) = CHR '','' # rest"
  "skip_ws (CHR '':'' # rest) = CHR '':'' # rest"
  by (simp_all add: skip_ws_def is_ws_def)

lemma follow_ok_punct:
  "follow_ok []" "follow_ok (CHR '']'' # rest)" "follow_ok (CHR ''}'' # rest)"
  "follow_ok (CHR '','' # rest)"
  by (simp_all add: follow_ok_def)

lemma parse_value_null: "4 \<le> n \<Longrightarrow> parse_value n (''null'' @ rest) = Some (JNull, rest)"
  by (cases n) simp_all

lemma parse_value_number:
  assumes "0 < n" and "follow_ok rest"
  shows "parse_value n (int_toString i @ rest) = Some (JNum i, rest)"
proof -
  from assms(1) obtain m where n: "n = Suc m" by (cases n) auto
  from int_toString_start [of i] obtain c cs
    where s: "int_toString i = c # cs" and c: "c = CHR ''-'' \<or> is_digit c" by blast
  from c have ne: "c \<noteq> CHR ''[''" "c \<noteq> CHR ''{''" "c \<noteq> CHR 0x22" "c \<noteq> CHR ''t''"
    "c \<noteq> CHR ''f''" "c \<noteq> CHR ''n''"
    by (auto simp: is_digit_def)
  have "parse_value n (int_toString i @ rest) = parse_number (int_toString i @ rest)"
    unfolding n s using ne by simp
  with parse_number_int_toString [OF assms(2)] show ?thesis by simp
qed

lemma parse_value_string:
  "0 < n \<Longrightarrow> parse_value n (quote_string s @ rest) = Some (JStr s, rest)"
  by (cases n) (simp_all add: quote_string_def parse_chars_quoted)

lemma length_stringify_pos: "0 < length (stringify v)"
  using stringify_start [of v] by auto

lemma parse_roundtrip:
  "integral v \<longrightarrow> (\<forall>n rest. length (stringify v) \<le> n \<longrightarrow> follow_ok rest \<longrightarrow>
      parse_value n (stringify v @ rest) = Some (v, rest))"
  "vs \<noteq> [] \<longrightarrow> integral_elements vs \<longrightarrow>
     (\<forall>n rest. length (stringify_elements vs) + 1 \<le> n \<longrightarrow>
        parse_elements n (stringify_elements vs @ CHR '']'' # rest) = Some (vs, rest))"
  "ms \<noteq> [] \<longrightarrow> integral_members ms \<longrightarrow>
     (\<forall>n rest. length (stringify_members ms) + 1 \<le> n \<longrightarrow>
        parse_members n (stringify_members ms @ CHR ''}'' # rest) = Some (ms, rest))"
proof (induction v and vs and ms rule: stringify_stringify_elements_stringify_members.induct)
  case 1
  show ?case
  proof (intro allI impI)
    fix n rest
    assume "length (stringify JNull) \<le> n"
    then have "4 \<le> n" by simp
    from parse_value_null [OF this]
    show "parse_value n (stringify JNull @ rest) = Some (JNull, rest)" by simp
  qed
next
  case (2 b)
  show ?case
  proof (intro allI impI)
    fix n rest
    assume "length (stringify (JBool b)) \<le> n"
    then have "4 \<le> n" "\<not> b \<longrightarrow> 5 \<le> n" by (simp_all split: if_splits)
    then obtain m where "n = Suc m" by (cases n) auto
    then show "parse_value n (stringify (JBool b) @ rest) = Some (JBool b, rest)"
      by (cases b) simp_all
  qed
next
  case (3 i)
  show ?case
  proof (intro allI impI)
    fix n rest
    assume "length (stringify (JNum i)) \<le> n" and ok: "follow_ok rest"
    with length_stringify_pos [of "JNum i"] have "0 < n" by linarith
    from parse_value_number [OF this ok]
    show "parse_value n (stringify (JNum i) @ rest) = Some (JNum i, rest)" by simp
  qed
next
  case (4 m e)
  show ?case by simp
next
  case (5 s)
  show ?case
  proof (intro allI impI)
    fix n rest
    assume "length (stringify (JStr s)) \<le> n"
    with length_stringify_pos [of "JStr s"] have "0 < n" by linarith
    from parse_value_string [OF this]
    show "parse_value n (stringify (JStr s) @ rest) = Some (JStr s, rest)" by simp
  qed
next
  case (6 vs)
  show ?case
  proof (intro allI impI)
    fix n rest
    assume ints: "integral (JArr vs)"
      and len: "length (stringify (JArr vs)) \<le> n" and "follow_ok rest"
    then obtain m where n: "n = Suc m" by (cases n) auto
    from ints have ints': "integral_elements vs" by simp
    show "parse_value n (stringify (JArr vs) @ rest) = Some (JArr vs, rest)"
    proof (cases "vs = []")
      case True
      then show ?thesis unfolding n by (simp add: skip_ws_punct)
    next
      case False
      from stringify_elements_start [OF False] obtain d ds
        where d: "stringify_elements vs = d # ds" "value_start d" by blast
      from len n have m: "length (stringify_elements vs) + 1 \<le> m" by simp
      from 6 False m ints'
      have elems: "parse_elements m (stringify_elements vs @ CHR '']'' # rest) = Some (vs, rest)"
        by blast
      have "parse_value n (CHR ''['' # (stringify_elements vs @ CHR '']'' # rest))
          = Some (JArr vs, rest)"
        unfolding n
        using skip_ws_elements [OF False, of "CHR '']'' # rest"] d value_start_facts [OF d(2)] elems
        by simp
      then show ?thesis by simp
    qed
  qed
next
  case (7 kvs)
  show ?case
  proof (intro allI impI)
    fix n rest
    assume ints: "integral (JObj kvs)"
      and len: "length (stringify (JObj kvs)) \<le> n" and "follow_ok rest"
    then obtain m where n: "n = Suc m" by (cases n) auto
    from ints have ints': "integral_members kvs" by simp
    show "parse_value n (stringify (JObj kvs) @ rest) = Some (JObj kvs, rest)"
    proof (cases "kvs = []")
      case True
      then show ?thesis unfolding n by (simp add: skip_ws_punct)
    next
      case False
      from stringify_members_start [OF False] obtain ds
        where d: "stringify_members kvs = CHR 0x22 # ds" by blast
      from len n have m: "length (stringify_members kvs) + 1 \<le> m" by simp
      from 7 False m ints'
      have membs: "parse_members m (stringify_members kvs @ CHR ''}'' # rest) = Some (kvs, rest)"
        by blast
      have "parse_value n (CHR ''{'' # (stringify_members kvs @ CHR ''}'' # rest))
          = Some (JObj kvs, rest)"
        unfolding n
        using skip_ws_members [OF False, of "CHR ''}'' # rest"] d membs
        by simp
      then show ?thesis by simp
    qed
  qed
next
  case 8
  show ?case by simp
next
  case (9 v)
  show ?case
  proof (intro allI impI)
    fix n rest
    assume ints: "integral_elements [v]"
      and len: "length (stringify_elements [v]) + 1 \<le> n"
    then obtain m where n: "n = Suc m" by (cases n) auto
    from ints have int_v: "integral v" by simp
    from len n have "length (stringify v) \<le> m" by simp
    with 9 int_v follow_ok_punct(2) [of rest]
    have "parse_value m (stringify v @ CHR '']'' # rest) = Some (v, CHR '']'' # rest)" by blast
    then show "parse_elements n (stringify_elements [v] @ CHR '']'' # rest) = Some ([v], rest)"
      unfolding n by (simp add: skip_ws_punct)
  qed
next
  case (10 v w vs)
  show ?case
  proof (intro allI impI)
    fix n rest
    assume ints: "integral_elements (v # w # vs)"
      and len: "length (stringify_elements (v # w # vs)) + 1 \<le> n"
    then obtain m where n: "n = Suc m" by (cases n) auto
    from ints have int_v: "integral v" and int_t: "integral_elements (w # vs)" by simp_all
    let ?tail = "stringify_elements (w # vs) @ CHR '']'' # rest"
    from len n have lv: "length (stringify v) \<le> m"
      and lt: "length (stringify_elements (w # vs)) + 1 \<le> m"
      using length_stringify_pos [of v] by simp_all
    from "10.IH"(1) int_v lv follow_ok_punct(4) [of ?tail]
    have first: "parse_value m (stringify v @ CHR '','' # ?tail) = Some (v, CHR '','' # ?tail)"
      by blast
    from "10.IH"(2) int_t lt have others: "parse_elements m ?tail = Some (w # vs, rest)" by blast
    have "parse_elements n (stringify v @ CHR '','' # ?tail) = Some (v # w # vs, rest)"
      unfolding n
      using first others skip_ws_elements [of "w # vs" "CHR '']'' # rest"]
      by (simp add: skip_ws_punct)
    then show "parse_elements n (stringify_elements (v # w # vs) @ CHR '']'' # rest)
        = Some (v # w # vs, rest)" by simp
  qed
next
  case 11
  show ?case by simp
next
  case (12 k v)
  show ?case
  proof (intro allI impI)
    fix n rest
    assume ints: "integral_members [(k, v)]"
      and len: "length (stringify_members [(k, v)]) + 1 \<le> n"
    then obtain m where n: "n = Suc m" by (cases n) auto
    from ints have int_v: "integral v" by simp
    from len n have "length (stringify v) \<le> m" by simp
    with 12 int_v follow_ok_punct(3) [of rest]
    have val: "parse_value m (stringify v @ CHR ''}'' # rest) = Some (v, CHR ''}'' # rest)"
      by blast
    have "parse_members n (CHR 0x22 # (concat (map quote_unit k) @ CHR 0x22 #
        (CHR '':'' # (stringify v @ CHR ''}'' # rest)))) = Some ([(k, v)], rest)"
      unfolding n
      using val skip_ws_stringify [of v "CHR ''}'' # rest"]
      by (simp add: parse_chars_quoted skip_ws_punct)
    then show "parse_members n (stringify_members [(k, v)] @ CHR ''}'' # rest)
        = Some ([(k, v)], rest)"
      by (simp add: quote_string_def)
  qed
next
  case (13 k v p ps)
  show ?case
  proof (intro allI impI)
    fix n rest
    assume ints: "integral_members ((k, v) # p # ps)"
      and len: "length (stringify_members ((k, v) # p # ps)) + 1 \<le> n"
    then obtain m where n: "n = Suc m" by (cases n) auto
    from ints have int_v: "integral v" and int_t: "integral_members (p # ps)" by simp_all
    let ?tail = "stringify_members (p # ps) @ CHR ''}'' # rest"
    from len n have lv: "length (stringify v) \<le> m"
      and lt: "length (stringify_members (p # ps)) + 1 \<le> m"
      using length_stringify_pos [of v] by (simp_all add: quote_string_def)
    from "13.IH"(1) int_v lv follow_ok_punct(4) [of ?tail]
    have val: "parse_value m (stringify v @ CHR '','' # ?tail) = Some (v, CHR '','' # ?tail)"
      by blast
    from "13.IH"(2) int_t lt have others: "parse_members m ?tail = Some (p # ps, rest)" by blast
    have "parse_members n (CHR 0x22 # (concat (map quote_unit k) @ CHR 0x22 #
        (CHR '':'' # (stringify v @ CHR '','' # ?tail)))) = Some ((k, v) # p # ps, rest)"
      unfolding n
      using val others skip_ws_stringify [of v "CHR '','' # ?tail"]
        skip_ws_members [of "p # ps" "CHR ''}'' # rest"]
      by (simp add: parse_chars_quoted skip_ws_punct)
    then show "parse_members n (stringify_members ((k, v) # p # ps) @ CHR ''}'' # rest)
        = Some ((k, v) # p # ps, rest)"
      by (simp add: quote_string_def)
  qed
qed

lemma JSON_parse_stringify: "integral v \<Longrightarrow> JSON_parse (stringify v) = Some v"
proof -
  assume ints: "integral v"
  have "length (stringify v) \<le> Suc (length (stringify v))" by simp
  from parse_roundtrip(1) [rule_format, OF ints this follow_ok_punct(1)]
  have "parse_value (Suc (length (stringify v))) (stringify v @ []) = Some (v, [])" .
  then have parsed: "parse_value (Suc (length (stringify v))) (stringify v) = Some (v, [])"
    by (simp only: append_Nil2)
  have "skip_ws (stringify v) = stringify v"
    using skip_ws_stringify [of v "[]"] by (simp only: append_Nil2)
  then show ?thesis
    unfolding JSON_parse_def by (simp only: parsed) (simp add: skip_ws_def)
qed

subsection \<open>Conversations as JSON and back\<close>

lemma units_of_eq_iff: "units_of a = units_of b \<longleftrightarrow> a = b"
  using units_of_inj by auto

lemma those_map_map:
  "(\<And>x. x \<in> set xs \<Longrightarrow> f (g x) = Some x) \<Longrightarrow> those_map f (map g xs) = Some xs"
  by (induction xs) simp_all

lemma role_of_string_toString: "role_of_string (role_toString r) = Some r"
  by (cases r) (simp_all add: role_of_string_def role_toString_def)

lemma message_of_json_of_message: "message_of_json (json_of_message m) = Some m"
  by (cases "m_imageBase64 m")
     (simp_all add: message_of_json_def json_of_message_def own_property_def string_member_def
        units_member_def int_member_def units_of_eq_iff narrow_units_of role_of_string_toString)

lemma conversation_of_json_of_conversation:
  "conversation_of_json (json_of_conversation c) = Some c"
  by (simp add: conversation_of_json_def json_of_conversation_def own_property_def
      string_member_def int_member_def units_of_eq_iff narrow_units_of
      those_map_map message_of_json_of_message)

lemma conversations_of_json_of_conversations:
  "conversations_of_json (json_of_conversations cs) = Some cs"
  by (simp add: conversations_of_json_def json_of_conversations_def those_map_map
      conversation_of_json_of_conversation)

lemma integral_json_of_message: "integral (json_of_message m)"
  by (cases "m_imageBase64 m") (simp_all add: json_of_message_def)

lemma integral_messages: "integral_elements (map json_of_message ms)"
  by (induction ms) (simp_all add: integral_json_of_message)

lemma integral_json_of_conversation: "integral (json_of_conversation c)"
  by (simp add: json_of_conversation_def integral_messages)

lemma integral_json_of_conversations: "integral (json_of_conversations cs)"
  unfolding json_of_conversations_def
  by (induction cs) (simp_all add: integral_json_of_conversation)

lemma stringify_not_Nil: "stringify v \<noteq> []"
  using length_stringify_pos [of v] by auto

lemma JSON_parse_conversations:
  "JSON_parse (stringify (json_of_conversations cs)) = Some (json_of_conversations cs)"
  by (rule JSON_parse_stringify [OF integral_json_of_conversations])

lemma persisted_set_written:
  "persisted_set (store(key \<mapsto> stringify (json_of_conversations cs))) key = Some cs"
  by (simp add: persisted_set_def stringify_not_Nil JSON_parse_conversations
      conversations_of_json_of_conversations)

subsection \<open>Queued updates and renders\<close>

lemma render_setConversations:
  "conversations (render (setConversations f s)) = f (conversations (render s))"
  by (simp add: render_def setConversations_def Let_def)

lemma render_setConversations_frame:
  "conversationsRef (render (setConversations f s)) = conversations (render (setConversations f s)) \<and>
   pendingUpdates (render (setConversations f s)) = [] \<and>
   storage (render (setConversations f s)) = storage s \<and>
   saveTimer (render (setConversations f s)) = saveTimer s \<and>
   storageKeyRef (render (setConversations f s)) = storageKeyRef s \<and>
   isLoading (render (setConversations f s)) = isLoading s \<and>
   pendingLoads (render (setConversations f s)) = pendingLoads s"
  by (simp add: render_def setConversations_def Let_def)

lemma render_frame:
  "pendingUpdates (render s) = [] \<and> storage (render s) = storage s \<and>
   saveTimer (render s) = saveTimer s \<and> storageKeyRef (render s) = storageKeyRef s \<and>
   isLoading (render s) = isLoading s \<and> pendingLoads (render s) = pendingLoads s"
  by (simp add: render_def Let_def)

lemma render_render: "render (render s) = render s"
  by (simp add: render_def Let_def)

lemma setConversations_frame:
  "conversations (setConversations f s) = conversations s \<and>
   conversationsRef (setConversations f s) = conversationsRef s \<and>
   storage (setConversations f s) = storage s \<and>
   saveTimer (setConversations f s) = saveTimer s \<and>
   storageKeyRef (setConversations f s) = storageKeyRef s"
  by (simp add: setConversations_def)

subsection \<open>The trailing message\<close>

lemma replace_last_content_props:
  "msgs \<noteq> [] \<Longrightarrow>
     length (replace_last_content content msgs) = length msgs \<and>
     butlast (replace_last_content content msgs) = butlast msgs \<and>
     last (replace_last_content content msgs) = (last msgs)\<lparr>m_content := content\<rparr>"
  unfolding replace_last_content_def
  by (cases msgs rule: rev_cases) (auto simp: nth_append)

text \<open>
  C10: \<open>updateLastMessage\<close> hands React an updater; the list it is applied to is the one
  the render finds, the list it gives is the one after the render. The updater leaves the
  whole list as it is when no conversation with the given id has a message. Otherwise the
  list keeps its length; in every conversation with that id and a non-empty message list the
  last message gets the new content and keeps everything else (id, role, timestamp, image),
  the messages before it are untouched, \<open>updatedAt\<close> becomes \<open>Date.now()\<close>; every
  other conversation is unchanged.
\<close>

theorem updateLastMessage_spec:
  "((\<forall>c \<in> set (conversations (render s)). c_id c = cid \<longrightarrow> c_messages c = []) \<longrightarrow>
      conversations (render (updateLastMessage now cid content s)) = conversations (render s)) \<and>
   length (conversations (render (updateLastMessage now cid content s)))
     = length (conversations (render s)) \<and>
   (\<forall>i < length (conversations (render s)).
      let c = conversations (render s) ! i;
          c' = conversations (render (updateLastMessage now cid content s)) ! i
      in if c_id c = cid \<and> c_messages c \<noteq> []
         then c_id c' = c_id c \<and> c_title c' = c_title c \<and> c_createdAt c' = c_createdAt c \<and>
              c_updatedAt c' = int now \<and>
              length (c_messages c') = length (c_messages c) \<and>
              butlast (c_messages c') = butlast (c_messages c) \<and>
              last (c_messages c') = (last (c_messages c))\<lparr>m_content := content\<rparr>
         else c' = c)"
proof -
  let ?f = "updateLastMessage_conv now cid content"
  let ?cs = "conversations (render s)"
  have conv: "conversations (render (updateLastMessage now cid content s)) = map ?f ?cs"
    by (simp add: updateLastMessage_def render_setConversations)
  have noop: "(\<forall>c \<in> set ?cs. c_id c = cid \<longrightarrow> c_messages c = []) \<longrightarrow> map ?f ?cs = ?cs"
    by (auto simp: updateLastMessage_conv_def intro!: map_idI)
  have each: "\<And>c. c_id c = cid \<and> c_messages c \<noteq> [] \<Longrightarrow>
      c_id (?f c) = c_id c \<and> c_title (?f c) = c_title c \<and> c_createdAt (?f c) = c_createdAt c \<and>
      c_updatedAt (?f c) = int now \<and>
      length (c_messages (?f c)) = length (c_messages c) \<and>
      butlast (c_messages (?f c)) = butlast (c_messages c) \<and>
      last (c_messages (?f c)) = (last (c_messages c))\<lparr>m_content := content\<rparr>"
    using replace_last_content_props by (simp add: updateLastMessage_conv_def)
  have other: "\<And>c. \<not> (c_id c = cid \<and> c_messages c \<noteq> []) \<Longrightarrow> ?f c = c"
    by (auto simp: updateLastMessage_conv_def)
  show ?thesis
    unfolding conv using noop each other by (simp add: Let_def)
qed

theorem updateLastMessage_spec_witness:
  "conversations (render demo_provider) = conversations demo_provider \<and>
   conversations (render (updateLastMessage 9 ''b'' (units_of ''Hi there'') demo_provider))
     = conversations demo_provider \<and>
   last (c_messages (conversations
          (render (updateLastMessage 9 ''a'' (units_of ''Hi there'') demo_provider)) ! 0))
     = demo_message\<lparr>m_content := units_of ''Hi there''\<rparr> \<and>
   c_updatedAt (conversations
          (render (updateLastMessage 9 ''a'' (units_of ''Hi there'') demo_provider)) ! 0) = 9 \<and>
   conversations (render (updateLastMessage 9 ''a'' (units_of ''Hi there'') demo_provider)) ! 1
     = conversations demo_provider ! 1"
proof -
  have idle: "conversations (render demo_provider) = conversations demo_provider"
    by (simp add: render_def demo_provider_def)
  have cs: "conversations (render demo_provider) =
      [\<lparr>c_id = ''a'', c_title = ''New Chat'', c_messages = [demo_message], c_createdAt = 1,
        c_updatedAt = 5\<rparr>,
       \<lparr>c_id = ''b'', c_title = ''New Chat'', c_messages = [], c_createdAt = 2,
        c_updatedAt = 2\<rparr>]"
    by (simp add: render_def demo_provider_def)
  note at_index = updateLastMessage_spec [of demo_provider "''a''" 9 "units_of ''Hi there''",
      THEN conjunct2, THEN conjunct2, rule_format]
  have unknown: "conversations (render (updateLastMessage 9 ''b'' (units_of ''Hi there'') demo_provider))
      = conversations demo_provider"
    using updateLastMessage_spec [of demo_provider "''b''" 9 "units_of ''Hi there''"]
    by (simp add: cs) (simp add: demo_provider_def)
  have first: "last (c_messages (conversations
          (render (updateLastMessage 9 ''a'' (units_of ''Hi there'') demo_provider)) ! 0))
     = demo_message\<lparr>m_content := units_of ''Hi there''\<rparr> \<and>
     c_updatedAt (conversations
          (render (updateLastMessage 9 ''a'' (units_of ''Hi there'') demo_provider)) ! 0) = 9"
    using at_index [of 0] by (simp add: cs Let_def)
  have second: "conversations (render (updateLastMessage 9 ''a'' (units_of ''Hi there'') demo_provider)) ! 1
      = conversations demo_provider ! 1"
    using at_index [of 1] by (simp add: cs Let_def) (simp add: demo_provider_def)
  from idle unknown first second show ?thesis by simp
qed

subsection \<open>Writes to the store\<close>

lemma updateLastMessage_frame:
  "storage (updateLastMessage now cid content s) = storage s \<and>
   saveTimer (updateLastMessage now cid content s) = saveTimer s \<and>
   storageKeyRef (updateLastMessage now cid content s) = storageKeyRef s \<and>
   conversationsRef (updateLastMessage now cid content s) = conversationsRef s"
  by (simp add: updateLastMessage_def setConversations_def)

lemma updateLastMessage_calls_frame:
  "storage (updateLastMessage_calls calls s) = storage s \<and>
   saveTimer (updateLastMessage_calls calls s) = saveTimer s \<and>
   storageKeyRef (updateLastMessage_calls calls s) = storageKeyRef s \<and>
   conversationsRef (updateLastMessage_calls calls s) = conversationsRef s"
  by (induction calls s rule: updateLastMessage_calls.induct) (simp_all add: updateLastMessage_frame)

text \<open>
  C5: any number of \<open>updateLastMessage\<close> calls, and the render that runs their
  updaters, leave the store and the timer as they were, so with no timer running nothing is
  written when time passes. Each of \<open>createConversation\<close>, \<open>deleteConversation\<close>,
  \<open>addMessage\<close> and \<open>updateConversationTitle\<close> starts the timer, whose callback
  (after the render) then writes the list with the replaced content; \<open>persistNow\<close>
  writes at once what the ref holds.
\<close>

theorem updateLastMessage_no_write:
  "storage (updateLastMessage_calls calls s) = storage s \<and>
   saveTimer (updateLastMessage_calls calls s) = saveTimer s \<and>
   storage (render (updateLastMessage_calls calls s)) = storage s \<and>
   saveTimer (render (updateLastMessage_calls calls s)) = saveTimer s \<and>
   (\<not> saveTimer s \<longrightarrow>
      storage (saveTimer_fires ok (updateLastMessage_calls calls s)) = storage s \<and>
      storage (saveTimer_fires ok (render (updateLastMessage_calls calls s))) = storage s) \<and>
   saveTimer (snd (createConversation now rnd title s)) \<and>
   saveTimer (deleteConversation cid s) \<and>
   saveTimer (addMessage now cid message s) \<and>
   saveTimer (updateConversationTitle cid newTitle s) \<and>
   (storageKeyRef s = Some key \<longrightarrow>
      storage (saveTimer_fires True
                 (render (addMessage now cid message (updateLastMessage_calls calls s)))) key
        = Some (stringify (json_of_conversations
             (conversations
                (render (addMessage now cid message (updateLastMessage_calls calls s)))))) \<and>
      storage (persistNow True (updateLastMessage_calls calls s)) key
        = Some (stringify (json_of_conversations (conversationsRef (updateLastMessage_calls calls s)))))"
proof -
  let ?s = "updateLastMessage_calls calls s"
  have frame: "storage ?s = storage s" "saveTimer ?s = saveTimer s" "storageKeyRef ?s = storageKeyRef s"
    using updateLastMessage_calls_frame [of calls s] by simp_all
  have rframe: "storage (render ?s) = storage s" "saveTimer (render ?s) = saveTimer s"
    using render_frame [of ?s] frame by simp_all
  have idle: "\<not> saveTimer s \<longrightarrow> storage (saveTimer_fires ok ?s) = storage s \<and>
      storage (saveTimer_fires ok (render ?s)) = storage s"
    using frame rframe by (simp add: saveTimer_fires_def)
  have sched: "saveTimer (snd (createConversation now rnd title s))"
    "saveTimer (deleteConversation cid s)" "saveTimer (addMessage now cid message s)"
    "saveTimer (updateConversationTitle cid newTitle s)"
    by (simp_all add: createConversation_def deleteConversation_def addMessage_def
        updateConversationTitle_def scheduleSave_def setConversations_def Let_def)
  let ?t = "render (addMessage now cid message ?s)"
  have t: "saveTimer ?t" "storageKeyRef ?t = storageKeyRef s" "conversationsRef ?t = conversations ?t"
    using frame(3)
    by (simp_all add: addMessage_def scheduleSave_def setConversations_def render_def Let_def)
  have written: "storageKeyRef s = Some key \<longrightarrow>
      storage (saveTimer_fires True ?t) key
        = Some (stringify (json_of_conversations (conversations ?t)))"
    using t by (simp add: saveTimer_fires_def write_conversations_def Let_def)
  have flushed: "storageKeyRef s = Some key \<longrightarrow>
      storage (persistNow True ?s) key = Some (stringify (json_of_conversations (conversationsRef ?s)))"
    using frame(3) by (simp add: persistNow_def write_conversations_def)
  from frame(1,2) rframe idle sched written flushed show ?thesis by simp
qed

theorem updateLastMessage_no_write_witness:
  "\<not> saveTimer demo_provider \<and> storageKeyRef demo_provider = Some ''nexus_chats_u1'' \<and>
   storage (saveTimer_fires True
      (render (updateLastMessage_calls [(7, ''a'', units_of ''H''), (8, ''a'', units_of ''Hi there'')]
         demo_provider)))
     = storage demo_provider \<and>
   storage (persistNow True
      (updateLastMessage_calls [(7, ''a'', units_of ''H''), (8, ''a'', units_of ''Hi there'')]
         demo_provider))
     ''nexus_chats_u1'' \<noteq> storage demo_provider ''nexus_chats_u1''"
  using updateLastMessage_no_write [of "[(7, ''a'', units_of ''H''), (8, ''a'', units_of ''Hi there'')]"
      demo_provider True 0 "[]" None "[]" demo_message "[]" "''nexus_chats_u1''"]
  by (simp add: demo_provider_def)

subsection \<open>Save, then load\<close>

lemma spec_set_after_perform:
  "conversations (render (perform c s)) = spec_set_after c (conversations (render s))"
proof (cases c)
  case (CreateConversation t rnd title)
  then show ?thesis
    by (simp add: createConversation_def scheduleSave_def setConversations_def render_def Let_def)
next
  case (DeleteConversation ident)
  then show ?thesis
    by (simp add: deleteConversation_def scheduleSave_def setConversations_def render_def Let_def)
next
  case (AddMessageTo t conversationId message)
  let ?f = "\<lambda>c. if c_id c = conversationId
                 then c\<lparr>c_messages := c_messages c @ [message], c_updatedAt := int t\<rparr> else c"
  let ?cs = "conversations (render s)"
  have f: "addMessage_conv t conversationId message = ?f"
    by (rule ext) (simp add: addMessage_conv_def)
  have code: "conversations (render (perform c s)) = map ?f ?cs"
    using AddMessageTo
    by (simp add: addMessage_def scheduleSave_def setConversations_def render_def Let_def f)
  show ?thesis
  proof (cases "conversationId \<in> c_id ` set ?cs")
    case True
    with code AddMessageTo show ?thesis by simp
  next
    case False
    then have "map ?f ?cs = ?cs"
      by (intro map_idI) auto
    with code AddMessageTo False show ?thesis by simp
  qed
qed

lemma perform_frame:
  "conversations (perform c s) = conversations s \<and>
   conversationsRef (perform c s) = conversationsRef s \<and>
   storageKeyRef (perform c s) = storageKeyRef s \<and>
   storage (perform c s) = storage s \<and>
   pendingUpdates (perform c s) \<noteq> []"
  by (cases c)
     (simp_all add: createConversation_def deleteConversation_def addMessage_def
        scheduleSave_def setConversations_def Let_def)

lemma render_pending_sync:
  "pendingUpdates s \<noteq> [] \<Longrightarrow> conversationsRef (render s) = conversations (render s)"
  by (simp add: render_def Let_def)

lemma occurs_frame:
  "storageKeyRef (occurs ev s) = storageKeyRef s \<and> storage (occurs ev s) = storage s"
  by (cases ev) (simp_all add: perform_frame render_frame)

lemma occurs_sync:
  "conversationsRef (render s) = conversations (render s) \<Longrightarrow>
   conversationsRef (render (occurs ev s)) = conversations (render (occurs ev s))"
  by (cases ev) (simp_all add: render_pending_sync perform_frame render_render)

lemma occur_all_conversations:
  "conversations (render (occur_all evs s))
     = foldl (\<lambda>set c. spec_set_after c set) (conversations (render s)) (calls_of evs)"
proof (induction evs arbitrary: s)
  case Nil
  show ?case by simp
next
  case (Cons ev evs)
  show ?case
  proof (cases ev)
    case (Call c)
    then show ?thesis by (simp add: Cons.IH spec_set_after_perform)
  next
    case Render
    then show ?thesis by (simp add: Cons.IH render_render)
  qed
qed

lemma occur_all_frame:
  "conversationsRef (render s) = conversations (render s) \<Longrightarrow>
   conversationsRef (render (occur_all evs s)) = conversations (render (occur_all evs s)) \<and>
   storageKeyRef (occur_all evs s) = storageKeyRef s \<and>
   storage (occur_all evs s) = storage s"
  by (induction evs arbitrary: s) (simp_all add: occurs_frame occurs_sync)

lemma occur_all_unrendered:
  "conversations (occur_all (map Call cs) s) = conversations s \<and>
   conversationsRef (occur_all (map Call cs) s) = conversationsRef s"
  by (induction cs arbitrary: s) (simp_all add: perform_frame)

lemma load_after_mount:
  assumes "store (''nexus_chats_'' @ uid) = Some (stringify (json_of_conversations cs))"
  shows "\<exists>s3. load_settles 0 True (mount (Some uid) store) = Some s3 \<and>
     conversations (render s3) = cs \<and> conversationsRef s3 = cs \<and> \<not> isLoading s3"
  using assms
  by (simp add: load_settles_def mount_def key_effect_def storageKey_of_def
      loadConversations_start_def loadConversations_resume_def setConversations_def render_def
      stringify_not_Nil JSON_parse_conversations conversations_of_json_of_conversations)

text \<open>
  C4, as the code has it: a call to \<open>createConversation\<close>, \<open>deleteConversation\<close> or
  \<open>addMessage\<close> queues an updater, and the in-memory list is what the calls, applied in
  order, make of the list before once React has rendered, wherever else it has rendered in
  between. A \<open>persistNow\<close> after that render (with a \<open>setItem\<close> that succeeds)
  leaves the list as it is and stores, under the key of the active user, a text that
  \<open>JSON.parse\<close> reads back as that list; a provider mounted for the same user over that
  store has exactly this list once its load has settled. If \<open>setItem\<close> fails the
  store is as before.
\<close>

theorem save_load_roundtrip:
  assumes "storageKeyRef s = Some (''nexus_chats_'' @ uid)"
    and "conversationsRef (render s) = conversations (render s)"
  shows "conversations (render (occur_all evs s))
           = foldl (\<lambda>set c. spec_set_after c set) (conversations (render s)) (calls_of evs) \<and>
         conversations (persistNow True (render (occur_all evs s)))
           = conversations (render (occur_all evs s)) \<and>
         (\<exists>stored j. storage (persistNow True (render (occur_all evs s))) (''nexus_chats_'' @ uid)
                       = Some stored \<and>
                     JSON_parse stored = Some j \<and>
                     conversations_of_json j = Some (conversations (render (occur_all evs s)))) \<and>
         (\<exists>s3. load_settles 0 True
                  (mount (Some uid) (storage (persistNow True (render (occur_all evs s))))) = Some s3 \<and>
               conversations (render s3) = conversations (render (occur_all evs s)) \<and>
               \<not> isLoading s3) \<and>
         storage (persistNow False (render (occur_all evs s))) = storage s"
proof -
  let ?s1 = "render (occur_all evs s)"
  let ?s2 = "persistNow True ?s1"
  let ?key = "''nexus_chats_'' @ uid"
  from occur_all_frame [OF assms(2), of evs] assms(1) render_frame [of "occur_all evs s"]
  have ref: "conversationsRef ?s1 = conversations ?s1" and key: "storageKeyRef ?s1 = Some ?key"
    and store: "storage ?s1 = storage s"
    by simp_all
  have mem: "conversations ?s2 = conversations ?s1"
    using key by (simp add: persistNow_def write_conversations_def)
  have written: "storage ?s2 ?key = Some (stringify (json_of_conversations (conversations ?s1)))"
    using key ref by (simp add: persistNow_def write_conversations_def)
  have read: "\<exists>stored j. storage ?s2 ?key = Some stored \<and> JSON_parse stored = Some j \<and>
      conversations_of_json j = Some (conversations ?s1)"
    using written JSON_parse_conversations [of "conversations ?s1"]
      conversations_of_json_of_conversations [of "conversations ?s1"]
    by (intro exI conjI)
  from load_after_mount [of "storage ?s2" uid "conversations ?s1"] written
  have loaded: "\<exists>s3. load_settles 0 True (mount (Some uid) (storage ?s2)) = Some s3 \<and>
      conversations (render s3) = conversations ?s1 \<and> \<not> isLoading s3"
    by auto
  have failed: "storage (persistNow False ?s1) = storage s"
    using key store by (simp add: persistNow_def write_conversations_def)
  from occur_all_conversations [of evs s] mem read loaded failed show ?thesis by (intro conjI)
qed

theorem save_load_roundtrip_witness:
  "storageKeyRef demo_loaded = Some (''nexus_chats_'' @ ''u1'') \<and>
   conversationsRef (render demo_loaded) = conversations (render demo_loaded) \<and>
   calls_of demo_events
     = [CreateConversation 7 ''x'' None, AddMessageTo 8 ''7x'' demo_message,
        DeleteConversation ''a''] \<and>
   map c_id (conversations (render (occur_all demo_events demo_loaded))) = [''7x''] \<and>
   concat (map c_messages (conversations (render (occur_all demo_events demo_loaded))))
     = [demo_message] \<and>
   (\<exists>s3. load_settles 0 True
            (mount (Some ''u1'')
               (storage (persistNow True (render (occur_all demo_events demo_loaded)))))
            = Some s3 \<and>
         conversations (render s3) = conversations (render (occur_all demo_events demo_loaded)) \<and>
         \<not> isLoading s3)"
proof -
  have key: "storageKeyRef demo_loaded = Some (''nexus_chats_'' @ ''u1'')"
    by (simp add: demo_loaded_def)
  have sync: "conversationsRef (render demo_loaded) = conversations (render demo_loaded)"
    by (simp add: demo_loaded_def render_def)
  have calls: "calls_of demo_events
     = [CreateConversation 7 ''x'' None, AddMessageTo 8 ''7x'' demo_message,
        DeleteConversation ''a'']"
    by (simp add: demo_events_def)
  have ids: "map c_id (conversations (render (occur_all demo_events demo_loaded))) = [''7x'']"
    by code_simp
  have msgs: "concat (map c_messages (conversations (render (occur_all demo_events demo_loaded))))
      = [demo_message]"
    by code_simp
  from save_load_roundtrip [OF key sync, of demo_events] key sync calls ids msgs
  show ?thesis by blast
qed

text \<open>
  Before the render the list does not reflect the calls. On a provider that holds one
  conversation, \<open>createConversation\<close> and then \<open>addMessage\<close> to the new
  conversation, with no render in between or after: \<open>conversations\<close> is still the list
  from before the calls, and \<open>persistNow\<close> stores that list, which is not what the two
  calls make of it.
\<close>

theorem persistNow_before_render:
  "conversations (occur_all [Call (CreateConversation 7 ''x'' None),
                             Call (AddMessageTo 8 ''7x'' demo_message)] demo_loaded)
     = conversations demo_loaded \<and>
   persisted_set
     (storage (persistNow True
        (occur_all [Call (CreateConversation 7 ''x'' None),
                    Call (AddMessageTo 8 ''7x'' demo_message)] demo_loaded)))
     ''nexus_chats_u1''
     = Some (conversations demo_loaded) \<and>
   map c_id (foldl (\<lambda>set c. spec_set_after c set) (conversations demo_loaded)
      [CreateConversation 7 ''x'' None, AddMessageTo 8 ''7x'' demo_message]) = [''7x'', ''a''] \<and>
   map c_id (conversations demo_loaded) = [''a'']"
  by code_simp

subsection \<open>Switching the identity while a load is pending\<close>

lemma load_settles_value:
  assumes "i < length (pendingLoads s)"
    and "persisted_set (storage s) (pendingLoads s ! i) = Some cs"
  shows "\<exists>s1. load_settles i True s = Some s1 \<and>
     pendingUpdates s1 = pendingUpdates s @ [\<lambda>prev. cs] \<and>
     pendingLoads s1 = take i (pendingLoads s) @ drop (Suc i) (pendingLoads s) \<and>
     conversations s1 = conversations s \<and>
     storageKeyRef s1 = storageKeyRef s \<and> storage s1 = storage s \<and> \<not> isLoading s1"
  using assms
  by (auto simp: load_settles_def loadConversations_resume_def persisted_set_def
      setConversations_def split: option.splits if_splits)

lemma switched_state:
  assumes "A \<noteq> B"
  shows "render_with_user (Some B) (mount (Some A) store) =
     \<lparr>conversations = [], pendingUpdates = [], isLoading = True, conversationsRef = [],
      saveTimer = False, storageKeyRef = Some (''nexus_chats_'' @ B), storage = store,
      pendingLoads = [''nexus_chats_'' @ A, ''nexus_chats_'' @ B]\<rparr>"
  using assms
  by (simp add: render_with_user_def mount_def key_effect_def key_effect_cleanup_def
      loadConversations_start_def storageKey_of_def render_def Let_def)

text \<open>
  When the user changes from \<open>A\<close> to \<open>B\<close> while the load for \<open>A\<close> is pending,
  two loads are pending and neither result is discarded. After the next render the in-memory
  list is the persisted state of the key whose load settled last: \<open>B\<close>'s if \<open>A\<close>'s
  load settles first, \<open>A\<close>'s (under the key of \<open>B\<close>) if \<open>B\<close>'s settles first.
\<close>

lemma last_settled_load_retained:
  assumes "A \<noteq> B"
    and "persisted_set store (''nexus_chats_'' @ A) = Some a"
    and "persisted_set store (''nexus_chats_'' @ B) = Some b"
  shows "pendingLoads (render_with_user (Some B) (mount (Some A) store))
           = [''nexus_chats_'' @ A, ''nexus_chats_'' @ B] \<and>
         (\<exists>s2 s3. load_settles 0 True (render_with_user (Some B) (mount (Some A) store)) = Some s2 \<and>
                  load_settles 0 True s2 = Some s3 \<and>
                  storageKeyRef s3 = Some (''nexus_chats_'' @ B) \<and> pendingLoads s3 = [] \<and>
                  conversations (render s3) = b) \<and>
         (\<exists>s2 s3. load_settles 1 True (render_with_user (Some B) (mount (Some A) store)) = Some s2 \<and>
                  load_settles 0 True s2 = Some s3 \<and>
                  storageKeyRef s3 = Some (''nexus_chats_'' @ B) \<and> pendingLoads s3 = [] \<and>
                  conversations (render s3) = a)"
proof -
  let ?kA = "''nexus_chats_'' @ A" and ?kB = "''nexus_chats_'' @ B"
  let ?s1 = "render_with_user (Some B) (mount (Some A) store)"
  note s1 = switched_state [OF assms(1), of store]
  have pend: "pendingLoads ?s1 = [?kA, ?kB]" by (simp add: s1)
  have two: "\<exists>s2 s3. load_settles i True ?s1 = Some s2 \<and> load_settles 0 True s2 = Some s3 \<and>
      storageKeyRef s3 = Some ?kB \<and> pendingLoads s3 = [] \<and> conversations (render s3) = y"
    if i: "i < 2" and x: "persisted_set store ([?kA, ?kB] ! i) = Some x"
      and y: "persisted_set store ([?kA, ?kB] ! (1 - i)) = Some y" for i x y
  proof -
    from load_settles_value [of i ?s1 x] i x obtain s2
      where s2: "load_settles i True ?s1 = Some s2" "pendingUpdates s2 = [\<lambda>prev. x]"
        "pendingLoads s2 = take i [?kA, ?kB] @ drop (Suc i) [?kA, ?kB]"
        "storageKeyRef s2 = Some ?kB" "storage s2 = store"
      by (auto simp: s1)
    from i s2(3) have rest: "pendingLoads s2 = ([?kA, ?kB] ! (1 - i)) # []"
      by (cases i) auto
    from load_settles_value [of 0 s2 y] rest y s2 obtain s3
      where s3: "load_settles 0 True s2 = Some s3" "pendingUpdates s3 = [\<lambda>prev. x, \<lambda>prev. y]"
        "pendingLoads s3 = []" "storageKeyRef s3 = Some ?kB"
      by auto
    from s3(2) have "conversations (render s3) = y" by (simp add: render_def Let_def)
    with s2(1) s3 show ?thesis by blast
  qed
  from two [of 0 a b] assms(2,3)
  have order1: "\<exists>s2 s3. load_settles 0 True ?s1 = Some s2 \<and> load_settles 0 True s2 = Some s3 \<and>
      storageKeyRef s3 = Some ?kB \<and> pendingLoads s3 = [] \<and> conversations (render s3) = b"
    by simp
  from two [of 1 b a] assms(2,3)
  have order2: "\<exists>s2 s3. load_settles 1 True ?s1 = Some s2 \<and> load_settles 0 True s2 = Some s3 \<and>
      storageKeyRef s3 = Some ?kB \<and> pendingLoads s3 = [] \<and> conversations (render s3) = a"
    by simp
  from pend order1 order2 show ?thesis by (intro conjI)
qed

text \<open>
  C2 at a store that holds one conversation for \<open>A\<close> and nothing for \<open>B\<close>: the user
  changes from \<open>A\<close> to \<open>B\<close> while the load for \<open>A\<close> is pending, then the load
  for \<open>B\<close> settles, then the one for \<open>A\<close>. The current key is \<open>B\<close>'s, whose
  persisted state is empty, and the in-memory list after the render is \<open>A\<close>'s;
  \<open>persistNow\<close> then writes \<open>A\<close>'s conversations under \<open>B\<close>'s key. The cleanup
  of the same effect does cancel a write that was pending for the old key.
\<close>

theorem stale_load_retained:
  "map_option storageKeyRef
     (Option.bind (load_settles 1 True (render_with_user (Some ''B'') (mount (Some ''A'') demo_store)))
        (load_settles 0 True))
     = Some (Some ''nexus_chats_B'') \<and>
   persisted_set demo_store ''nexus_chats_B'' = Some [] \<and>
   map_option (\<lambda>s. conversations (render s))
     (Option.bind (load_settles 1 True (render_with_user (Some ''B'') (mount (Some ''A'') demo_store)))
        (load_settles 0 True))
     = Some (conversations demo_loaded) \<and>
   conversations demo_loaded \<noteq> [] \<and>
   map_option (\<lambda>s. persisted_set (storage (persistNow True (render s))) ''nexus_chats_B'')
     (Option.bind (load_settles 1 True (render_with_user (Some ''B'') (mount (Some ''A'') demo_store)))
        (load_settles 0 True))
     = Some (Some (conversations demo_loaded)) \<and>
   saveTimer (scheduleSave (mount (Some ''A'') demo_store)) \<and>
   \<not> saveTimer (render_with_user (Some ''B'') (scheduleSave (mount (Some ''A'') demo_store)))"
  by code_simp

subsection \<open>Message ids\<close>

lemma split_at_first:
  "x \<notin> set a \<Longrightarrow> x \<notin> set a' \<Longrightarrow> a @ x # b = a' @ x # b' \<Longrightarrow> a = a' \<and> b = b'"
proof (induction a arbitrary: a')
  case Nil
  then show ?case by (cases a') auto
next
  case (Cons y a)
  then show ?case by (cases a') auto
qed

lemma generateMessageId_counter:
  assumes "fst (generateMessageId now rnd k) = fst (generateMessageId now' rnd' k')"
  shows "k = k'"
proof -
  from assms have e1: "nat_toString now @ CHR ''-'' # (nat_toString (k + 1) @ CHR ''-'' # rnd)
      = nat_toString now' @ CHR ''-'' # (nat_toString (k' + 1) @ CHR ''-'' # rnd')"
    by (simp add: generateMessageId_def Let_def)
  have e2: "nat_toString (k + 1) @ CHR ''-'' # rnd = nat_toString (k' + 1) @ CHR ''-'' # rnd'"
    using split_at_first [OF nat_toString_no_dash nat_toString_no_dash e1] by simp
  have "nat_toString (k + 1) = nat_toString (k' + 1)"
    using split_at_first [OF nat_toString_no_dash nat_toString_no_dash e2] by simp
  then have "k + 1 = k' + 1" by (rule nat_toString_inj)
  then show ?thesis by simp
qed

lemma generateMessageId_calls_counter:
  "x \<in> set (generateMessageId_calls envs c) \<Longrightarrow>
     \<exists>now rnd k. c \<le> k \<and> x = fst (generateMessageId now rnd k)"
proof (induction envs c rule: generateMessageId_calls.induct)
  case (1 c)
  then show ?case by simp
next
  case (2 now rnd envs c)
  have next_c: "snd (generateMessageId now rnd c) = c + 1"
    by (simp add: generateMessageId_def Let_def)
  from 2(2) consider "x = fst (generateMessageId now rnd c)"
    | "x \<in> set (generateMessageId_calls envs (snd (generateMessageId now rnd c)))"
    by auto
  then show ?case
  proof cases
    case 1
    then have "c \<le> c \<and> x = fst (generateMessageId now rnd c)" by simp
    then show ?thesis by (intro exI)
  next
    case 2
    from "2.IH" [OF 2] obtain now' rnd' k
      where k: "snd (generateMessageId now rnd c) \<le> k" "x = fst (generateMessageId now' rnd' k)"
      by auto
    from k(1) next_c have "c \<le> k" by simp
    with k(2) have "c \<le> k \<and> x = fst (generateMessageId now' rnd' k)" by simp
    then show ?thesis by (intro exI)
  qed
qed

text \<open>
  C8: the ids returned by any sequence of \<open>generateMessageId\<close> calls in one process are
  pairwise different, whatever the clock and the random text are at each call (so also when all
  calls fall into one millisecond and draw the same random text): the counter alone, printed
  between two dashes after the digits of the timestamp, tells them apart.
\<close>

theorem generateMessageId_unique: "distinct (generateMessageId_calls envs counter)"
proof (induction envs counter rule: generateMessageId_calls.induct)
  case (1 c)
  then show ?case by simp
next
  case (2 now rnd envs c)
  have next_c: "snd (generateMessageId now rnd c) = c + 1"
    by (simp add: generateMessageId_def Let_def)
  have "fst (generateMessageId now rnd c) \<notin> set (generateMessageId_calls envs (c + 1))"
  proof
    assume "fst (generateMessageId now rnd c) \<in> set (generateMessageId_calls envs (c + 1))"
    from generateMessageId_calls_counter [OF this] obtain now' rnd' k where k: "c + 1 \<le> k"
      "fst (generateMessageId now rnd c) = fst (generateMessageId now' rnd' k)"
      by auto
    from generateMessageId_counter [OF k(2)] k(1) show False by simp
  qed
  with 2 next_c show ?case by simp
qed

subsection \<open>Framing of the response body\<close>

lemma split_nl_not_Nil: "split_nl s \<noteq> []"
  by (induction s) (auto split: list.splits)

lemma split_nl_no_newline: "CHR 0x0A \<notin> set s \<Longrightarrow> split_nl s = [s]"
  by (induction s) auto

lemma last_split_nl_no_newline: "CHR 0x0A \<notin> set (last (split_nl s))"
proof (induction s)
  case Nil
  then show ?case by simp
next
  case (Cons c s)
  then show ?case
    using split_nl_not_Nil [of s] by (cases "split_nl s") (auto split: if_splits)
qed

lemma split_nl_append:
  "split_nl (a @ b) = butlast (split_nl a) @ split_nl (last (split_nl a) @ b)"
proof (induction a)
  case Nil
  then show ?case by simp
next
  case (Cons c a)
  show ?case
  proof (cases "c = CHR 0x0A")
    case True
    with Cons split_nl_not_Nil [of a] show ?thesis by simp
  next
    case False
    obtain l ls where a: "split_nl a = l # ls"
      using split_nl_not_Nil [of a] by (cases "split_nl a") auto
    show ?thesis
    proof (cases ls)
      case Nil
      with a False Cons show ?thesis by simp
    next
      case (Cons l' ls')
      with a False Cons.IH show ?thesis by simp
    qed
  qed
qed

lemma process_lines_append:
  "process_lines e (xs @ ys) st =
     (case process_lines e xs st of Inl x \<Rightarrow> Inl x | Inr st1 \<Rightarrow> process_lines e ys st1)"
  by (induction xs arbitrary: st) (auto split: sum.splits)

lemma read_loop_Chunk:
  "read_loop e (Chunk v # rs) buffer st =
     (case process_lines e (butlast (split_nl (buffer @ v))) st of
        Inl x \<Rightarrow> Inl x
      | Inr st1 \<Rightarrow> read_loop e rs (last (split_nl (buffer @ v))) st1)"
  using split_nl_not_Nil [of "buffer @ v"] by (simp add: pop_def Let_def cong: sum.case_cong)

lemma read_loop_chunks:
  "CHR 0x0A \<notin> set buffer \<Longrightarrow>
   read_loop e (map Chunk cs) buffer st =
     process_lines e (butlast (split_nl (buffer @ concat cs))) st"
proof (induction cs arbitrary: buffer st)
  case Nil
  then show ?case by (simp add: split_nl_no_newline)
next
  case (Cons v cs)
  let ?b = "last (split_nl (buffer @ v))"
  have split: "butlast (split_nl (buffer @ concat (v # cs)))
      = butlast (split_nl (buffer @ v)) @ butlast (split_nl (?b @ concat cs))"
    using split_nl_append [of "buffer @ v" "concat cs"] split_nl_not_Nil [of "?b @ concat cs"]
    by (simp add: butlast_append)
  have IH: "\<And>st1. read_loop e (map Chunk cs) ?b st1
      = process_lines e (butlast (split_nl (?b @ concat cs))) st1"
    using Cons.IH [OF last_split_nl_no_newline] .
  show ?case
    unfolding split process_lines_append list.map read_loop_Chunk
    by (simp add: IH split: sum.splits)
qed

text \<open>
  C6: the read loop keeps a carry-over buffer. For every chunk the decoded text is appended to
  the buffer and the result is split at the newlines; all segments but the last are processed
  as lines, the last one is the buffer for the next chunk. Over a whole body this processes
  exactly the newline-terminated lines of the concatenated chunks, however the text is cut
  into chunks; a last piece without a newline is never processed.
\<close>

theorem stream_framing:
  "read_loop e (Chunk v # rs) buffer st =
     (case process_lines e (butlast (split_nl (buffer @ v))) st of
        Inl x \<Rightarrow> Inl x
      | Inr st1 \<Rightarrow> read_loop e rs (last (split_nl (buffer @ v))) st1) \<and>
   read_loop e (map Chunk cs) [] st = process_lines e (butlast (split_nl (concat cs))) st \<and>
   (CHR 0x0A \<notin> set partial \<longrightarrow>
      read_loop e (map Chunk (cs @ [partial])) [] st = read_loop e (map Chunk cs) [] st)"
proof -
  have whole: "\<And>cs. read_loop e (map Chunk cs) [] st
      = process_lines e (butlast (split_nl (concat cs))) st"
    using read_loop_chunks [of "[]" e _ st] by simp
  have "butlast (split_nl (concat cs @ partial)) = butlast (split_nl (concat cs))"
    if "CHR 0x0A \<notin> set partial"
  proof -
    from that last_split_nl_no_newline [of "concat cs"]
    have "split_nl (last (split_nl (concat cs)) @ partial) = [last (split_nl (concat cs)) @ partial]"
      by (intro split_nl_no_newline) simp
    then show ?thesis using split_nl_append [of "concat cs" partial] by (simp add: butlast_append)
  qed
  then have dropped: "CHR 0x0A \<notin> set partial \<longrightarrow>
      read_loop e (map Chunk (cs @ [partial])) [] st = read_loop e (map Chunk cs) [] st"
    unfolding whole [of "cs @ [partial]"] whole [of cs] by simp
  from read_loop_Chunk [of e v rs buffer st] whole [of cs] dropped show ?thesis by simp
qed

theorem stream_framing_witness:
  "CHR 0x0A \<notin> set frame_Hi_there \<and>
   read_loop demo_env (map Chunk ([frame_Hi @ [CHR 0x0A]] @ [frame_Hi_there])) [] demo_run
     = read_loop demo_env (map Chunk [frame_Hi @ [CHR 0x0A]]) [] demo_run \<and>
   map_sum fst fullContent (read_loop demo_env (map Chunk [frame_Hi @ [CHR 0x0A]]) [] demo_run)
     = Inr (units_of ''Hi'')"
proof -
  have no_nl: "CHR 0x0A \<notin> set frame_Hi_there" by (simp add: frame_Hi_there_def)
  have run: "map_sum fst fullContent
      (read_loop demo_env (map Chunk [frame_Hi @ [CHR 0x0A]]) [] demo_run) = Inr (units_of ''Hi'')"
    by code_simp
  from stream_framing [of demo_env "[]" "[]" "[]" demo_run "[frame_Hi @ [CHR 0x0A]]" frame_Hi_there]
    no_nl run
  show ?thesis by simp
qed

lemma JSON_parse_DONE: "JSON_parse ''[DONE]'' = None"
  by code_simp

lemma process_line_malformed:
  assumes "JSON_parse payload = None"
  shows "process_line e (''data: '' @ payload) st = Inr st"
  using assms by (simp add: process_line_def Let_def)

lemma process_line_error_frame:
  assumes "JSON_parse payload = Some parsed"
    and "get_prop parsed (units_of ''error'') = Inr (Some err)"
    and "truthy err"
  shows "\<exists>x st1. process_line e (''data: '' @ payload) st = Inl (x, st1)"
proof -
  from assms(1) have not_done: "payload \<noteq> ''[DONE]''" using JSON_parse_DONE by auto
  from assms(2) obtain content
    where content: "get_prop parsed (units_of ''content'') = Inr content"
    by (cases parsed) (simp_all add: get_prop_def)
  let ?r = "case content of None \<Rightarrow> Inr st
            | Some c \<Rightarrow> if truthy c then on_content e c st else Inr st"
  have unfold: "process_line e (''data: '' @ payload) st =
      (case ?r of Inl x \<Rightarrow> Inl x | Inr st1 \<Rightarrow> Inl (Error, st1))"
    using assms not_done content
    by (simp add: process_line_def Let_def truthy_opt_def cong: sum.case_cong)
  show ?thesis
  proof (cases ?r)
    case (Inl x)
    then have "process_line e (''data: '' @ payload) st = Inl (fst x, snd x)"
      unfolding unfold by simp
    then show ?thesis by (intro exI)
  next
    case (Inr st1)
    then have "process_line e (''data: '' @ payload) st = Inl (Error, st1)"
      unfolding unfold by simp
    then show ?thesis by (intro exI)
  qed
qed

lemma process_line_null: "process_line e ''data: null'' st = Inl (TypeError, st)"
proof -
  have "JSON_parse ''null'' = Some JNull" by code_simp
  then show ?thesis by (simp add: process_line_def Let_def get_prop_def)
qed

text \<open>
  C7: a \<open>data: \<close> line whose payload is not JSON is skipped: the state is unchanged and
  the lines after it are processed as if it were not there. A frame with a truthy \<open>error\<close>
  member, and a payload \<open>null\<close> (a \<open>TypeError\<close>), leave the line handling with an
  exception; an exception leaves the loop over the lines and the read loop without touching
  the remaining lines and chunks.
\<close>

theorem malformed_line_skipped:
  "(JSON_parse payload = None \<longrightarrow>
      process_line e (''data: '' @ payload) st = Inr st \<and>
      process_lines e (before @ (''data: '' @ payload) # after) st
        = process_lines e (before @ after) st) \<and>
   (JSON_parse payload = Some parsed \<and> get_prop parsed (units_of ''error'') = Inr (Some err) \<and>
    truthy err \<longrightarrow>
      (\<exists>x st1. process_line e (''data: '' @ payload) st = Inl (x, st1))) \<and>
   process_line e ''data: null'' st = Inl (TypeError, st) \<and>
   (process_line e line st = Inl x \<longrightarrow> process_lines e (line # after) st = Inl x) \<and>
   (process_lines e (butlast (split_nl (buffer @ v))) st = Inl x \<longrightarrow>
      read_loop e (Chunk v # rs) buffer st = Inl x)"
proof -
  have skip: "JSON_parse payload = None \<longrightarrow>
      process_line e (''data: '' @ payload) st = Inr st \<and>
      process_lines e (before @ (''data: '' @ payload) # after) st
        = process_lines e (before @ after) st"
  proof
    assume bad: "JSON_parse payload = None"
    have "\<And>st1. process_lines e ((''data: '' @ payload) # after) st1 = process_lines e after st1"
      using process_line_malformed [OF bad] by simp
    then have "process_lines e (before @ (''data: '' @ payload) # after) st
        = process_lines e (before @ after) st"
      by (simp add: process_lines_append cong: sum.case_cong)
    with process_line_malformed [OF bad] show "process_line e (''data: '' @ payload) st = Inr st \<and>
      process_lines e (before @ (''data: '' @ payload) # after) st
        = process_lines e (before @ after) st" by simp
  qed
  have err: "JSON_parse payload = Some parsed \<and>
      get_prop parsed (units_of ''error'') = Inr (Some err) \<and> truthy err \<longrightarrow>
      (\<exists>x st1. process_line e (''data: '' @ payload) st = Inl (x, st1))"
    using process_line_error_frame by blast
  have abort_lines: "process_line e line st = Inl x \<longrightarrow> process_lines e (line # after) st = Inl x"
    by simp
  have abort_loop: "process_lines e (butlast (split_nl (buffer @ v))) st = Inl x \<longrightarrow>
      read_loop e (Chunk v # rs) buffer st = Inl x"
    unfolding read_loop_Chunk by simp
  from skip err process_line_null abort_lines abort_loop show ?thesis by blast
qed

theorem malformed_line_skipped_witness:
  "JSON_parse (drop 6 frame_malformed) = None \<and>
   process_lines demo_env ([] @ (''data: '' @ drop 6 frame_malformed) # [frame_Hi]) demo_run
     = process_lines demo_env ([] @ [frame_Hi]) demo_run \<and>
   map_sum fst fullContent (process_lines demo_env [frame_malformed, frame_Hi] demo_run)
     = Inr (units_of ''Hi'') \<and>
   (\<exists>x st1. process_line demo_env (''data: '' @ drop 6 frame_error) demo_run = Inl (x, st1)) \<and>
   process_lines demo_env (frame_error # [frame_Hi]) demo_run = Inl (Error, demo_run) \<and>
   read_loop demo_env (Chunk (frame_error @ [CHR 0x0A]) # [Chunk (frame_Hi @ [CHR 0x0A])]) [] demo_run
     = Inl (Error, demo_run) \<and>
   JSON_parse (drop 6 frame_rate_limited)
     = Some (JObj [(units_of ''error'', JStr (units_of ''rate limited'')),
                   (units_of ''retry_after'', JDec 15 (- 1))]) \<and>
   (\<exists>x st1. process_line demo_env (''data: '' @ drop 6 frame_rate_limited) demo_run = Inl (x, st1)) \<and>
   process_lines demo_env [frame_rate_limited, frame_Hi] demo_run = Inl (Error, demo_run) \<and>
   map_sum fst fullContent (process_lines demo_env [frame_escaped, frame_Hi] demo_run)
     = Inr (0x4f60 # units_of ''Hi'')"
proof -
  have thrown: "process_line demo_env frame_error demo_run = Inl (Error, demo_run)"
    by code_simp
  have thrown_lines: "process_lines demo_env (butlast (split_nl ([] @ (frame_error @ [CHR 0x0A])))) demo_run
      = Inl (Error, demo_run)"
    by code_simp
  note w = malformed_line_skipped [of _ demo_env demo_run _ "[frame_Hi]" _ _ frame_error
      "(Error, demo_run)" "[]" "frame_error @ [CHR 0x0A]" "[Chunk (frame_Hi @ [CHR 0x0A])]"]
  from w thrown have abort_lines:
    "process_lines demo_env (frame_error # [frame_Hi]) demo_run = Inl (Error, demo_run)"
    by blast
  from w thrown_lines have abort_loop:
    "read_loop demo_env (Chunk (frame_error @ [CHR 0x0A]) # [Chunk (frame_Hi @ [CHR 0x0A])]) [] demo_run
       = Inl (Error, demo_run)"
    by blast
  have bad: "JSON_parse (drop 6 frame_malformed) = None" by code_simp
  have good: "JSON_parse (drop 6 frame_error)
      = Some (JObj [(units_of ''error'', JStr (units_of ''boom''))])"
    by code_simp
  have err: "get_prop (JObj [(units_of ''error'', JStr (units_of ''boom''))]) (units_of ''error'')
        = Inr (Some (JStr (units_of ''boom''))) \<and>
      truthy (JStr (units_of ''boom''))"
    by (simp add: get_prop_def own_property_def units_of_def)
  have run: "map_sum fst fullContent (process_lines demo_env [frame_malformed, frame_Hi] demo_run)
      = Inr (units_of ''Hi'')"
    by code_simp
  note t = malformed_line_skipped [of "drop 6 frame_malformed" demo_env demo_run "[]" "[frame_Hi]"]
  note u = malformed_line_skipped [of "drop 6 frame_error" demo_env demo_run _ _
      "JObj [(units_of ''error'', JStr (units_of ''boom''))]" "JStr (units_of ''boom'')"]
  from t bad have skip: "process_lines demo_env ([] @ (''data: '' @ drop 6 frame_malformed) # [frame_Hi]) demo_run
     = process_lines demo_env ([] @ [frame_Hi]) demo_run" by blast
  from u good err have abort: "\<exists>x st1. process_line demo_env (''data: '' @ drop 6 frame_error) demo_run = Inl (x, st1)"
    by blast
  have limited: "JSON_parse (drop 6 frame_rate_limited)
     = Some (JObj [(units_of ''error'', JStr (units_of ''rate limited'')),
                   (units_of ''retry_after'', JDec 15 (- 1))])"
    by code_simp
  have limited_err:
    "get_prop (JObj [(units_of ''error'', JStr (units_of ''rate limited'')),
                     (units_of ''retry_after'', JDec 15 (- 1))]) (units_of ''error'')
        = Inr (Some (JStr (units_of ''rate limited''))) \<and>
      truthy (JStr (units_of ''rate limited''))"
    by code_simp
  note v = malformed_line_skipped [of "drop 6 frame_rate_limited" demo_env demo_run _ _
      "JObj [(units_of ''error'', JStr (units_of ''rate limited'')),
             (units_of ''retry_after'', JDec 15 (- 1))]" "JStr (units_of ''rate limited'')"]
  from v limited limited_err
  have limited_abort:
    "\<exists>x st1. process_line demo_env (''data: '' @ drop 6 frame_rate_limited) demo_run = Inl (x, st1)"
    by blast
  have limited_lines:
    "process_lines demo_env [frame_rate_limited, frame_Hi] demo_run = Inl (Error, demo_run)"
    by code_simp
  have escaped:
    "map_sum fst fullContent (process_lines demo_env [frame_escaped, frame_Hi] demo_run)
       = Inr (0x4f60 # units_of ''Hi'')"
    by code_simp
  from bad skip run abort abort_lines abort_loop limited limited_abort limited_lines escaped
  show ?thesis by blast
qed

subsection \<open>Content deltas and the fallback message\<close>

lemma sample_stream_lines:
  "butlast (split_nl sample_stream) = [frame_Hi, frame_Hi_there, frame_DONE]"
  by code_simp

lemma process_line_content_frame:
  assumes "JSON_parse payload = Some (JObj [(units_of ''content'', JStr s)])" and "s \<noteq> []"
  shows "process_line e (''data: '' @ payload) st = on_content e (JStr s) st"
proof -
  from assms(1) have not_done: "payload \<noteq> ''[DONE]''" using JSON_parse_DONE by auto
  have "process_line e (''data: '' @ payload) st =
      (case on_content e (JStr s) st of Inl x \<Rightarrow> Inl x | Inr st1 \<Rightarrow> Inr st1)"
    using assms not_done
    by (simp add: process_line_def Let_def get_prop_def own_property_def truthy_opt_def
        units_of_eq_iff cong: sum.case_cong)
  then show ?thesis by (cases "on_content e (JStr s) st") simp_all
qed

lemma units_of_not_Nil: "s \<noteq> [] \<Longrightarrow> units_of s \<noteq> []"
  by (simp add: units_of_def)

lemma process_line_frame_Hi:
  "process_line e frame_Hi st = on_content e (JStr (units_of ''Hi'')) st"
proof -
  have "JSON_parse (drop 6 frame_Hi) = Some (JObj [(units_of ''content'', JStr (units_of ''Hi''))])"
    by code_simp
  from process_line_content_frame [OF this] show ?thesis
    by (simp add: frame_Hi_def units_of_not_Nil)
qed

lemma process_line_frame_Hi_there:
  "process_line e frame_Hi_there st = on_content e (JStr (units_of ''Hi there'')) st"
proof -
  have "JSON_parse (drop 6 frame_Hi_there)
      = Some (JObj [(units_of ''content'', JStr (units_of ''Hi there''))])"
    by code_simp
  from process_line_content_frame [OF this] show ?thesis
    by (simp add: frame_Hi_there_def units_of_not_Nil)
qed

lemma process_line_frame_DONE: "process_line e frame_DONE st = Inr st"
  by (simp add: process_line_def frame_DONE_def)

lemma replace_last_content_snoc:
  "replace_last_content c (ms @ [m]) = ms @ [m\<lparr>m_content := c\<rparr>]"
  by (simp add: replace_last_content_def nth_append)

lemma on_content_first:
  assumes "\<not> assistantAdded st"
  shows "on_content e (JStr s) st =
     Inr (st\<lparr>fullContent := fullContent st @ s, showTyping := False,
             msgCounter := snd (generateMessageId (e_now e) (e_rnd e) (msgCounter st)),
             messages := messages st @
               [\<lparr>m_id = fst (generateMessageId (e_now e) (e_rnd e) (msgCounter st)),
                 m_role = Assistant, m_content = fullContent st @ s,
                 m_timestamp = int (e_now e), m_imageBase64 = None\<rparr>],
             effects := effects st @ [SetMessages (messages st @
               [\<lparr>m_id = fst (generateMessageId (e_now e) (e_rnd e) (msgCounter st)),
                 m_role = Assistant, m_content = fullContent st @ s,
                 m_timestamp = int (e_now e), m_imageBase64 = None\<rparr>])],
             assistantAdded := True\<rparr>)"
  using assms
  by (simp add: on_content_def append_content_def new_message_def setMessages_def Let_def
      split: prod.splits)

lemma on_content_next:
  assumes "assistantAdded st"
  shows "on_content e (JStr s) st =
     Inr (st\<lparr>fullContent := fullContent st @ s,
             messages := replace_last_content (fullContent st @ s) (messages st),
             effects := effects st
               @ [SetMessages (replace_last_content (fullContent st @ s) (messages st))]\<rparr>)"
  using assms
  by (simp add: on_content_def append_content_def setMessages_def Let_def)

text \<open>
  C1, as the code has it: each delta's \<open>content\<close> is appended to the text accumulated
  so far (\<open>fullContent += parsed.content\<close>), and the accumulated text replaces the content
  of the assistant message in progress. For the lines \<open>data: {"content":"Hi"}\<close>,
  \<open>data: {"content":"Hi there"}\<close>, \<open>data: [DONE]\<close>, cut into chunks in any way, the
  screen shows \<open>Hi\<close> and then \<open>HiHi there\<close>, and exactly one assistant message, with
  content \<open>HiHi there\<close>, is handed to \<open>addMessage\<close>.
\<close>

theorem stream_deltas_concatenated:
  assumes "concat cs = sample_stream" and "trim (inputText st0) \<noteq> []" and "\<not> isStreaming st0"
  shows "content_observations
           (effects (handleSend e ident (Response True (Some (map Chunk cs))) st0))
           = [units_of ''Hi'', units_of ''HiHi there''] \<and>
         map m_content (persisted_assistant
           (effects (handleSend e ident (Response True (Some (map Chunk cs))) st0)))
           = [units_of ''HiHi there''] \<and>
         map_sum fst fullContent (on_content e (JStr delta) st) = Inr (fullContent st @ delta)"
proof -
  have delta: "map_sum fst fullContent (on_content e (JStr delta) st) = Inr (fullContent st @ delta)"
    by (cases "assistantAdded st") (simp_all add: on_content_first on_content_next)
  have loop: "\<And>st. read_loop e (map Chunk cs) [] st
      = process_lines e [frame_Hi, frame_Hi_there, frame_DONE] st"
    using read_loop_chunks [of "[]" e cs] assms(1) by (simp add: sample_stream_lines)
  have cat: "units_of ''Hi'' @ units_of ''Hi there'' = units_of ''HiHi there''"
    by (simp add: units_of_def)
  have filled: "units_of ''Hi'' \<noteq> []" "units_of ''HiHi there'' \<noteq> []"
    by (simp_all add: units_of_def)
  have "content_observations
           (effects (handleSend e ident (Response True (Some (map Chunk cs))) st0))
           = [units_of ''Hi'', units_of ''HiHi there''] \<and>
         map m_content (persisted_assistant
           (effects (handleSend e ident (Response True (Some (map Chunk cs))) st0)))
           = [units_of ''HiHi there'']"
    using assms(2,3)
    by (simp add: handleSend_def stream_response_def loop Let_def new_message_def
        setMessages_def call_addMessage_def call_updateConversationTitle_def
        process_line_frame_Hi process_line_frame_Hi_there process_line_frame_DONE
        on_content_first on_content_next on_complete_def replace_last_content_snoc
        case_prod_beta cat filled)
  with delta show ?thesis by simp
qed

theorem stream_deltas_concatenated_witness:
  "concat [take 9 sample_stream, drop 9 sample_stream] = sample_stream \<and>
   trim (inputText demo_run) \<noteq> [] \<and> \<not> isStreaming demo_run \<and>
   content_observations
     (effects (handleSend demo_env ''c1''
        (Response True (Some (map Chunk [take 9 sample_stream, drop 9 sample_stream]))) demo_run))
     = [units_of ''Hi'', units_of ''HiHi there''] \<and>
   map m_content (persisted_assistant
     (effects (handleSend demo_env ''c1''
        (Response True (Some (map Chunk [take 9 sample_stream, drop 9 sample_stream]))) demo_run)))
     = [units_of ''HiHi there'']"
proof -
  have cut: "concat [take 9 sample_stream, drop 9 sample_stream] = sample_stream" by simp
  have nonblank: "trim (inputText demo_run) \<noteq> []" by code_simp
  have idle: "\<not> isStreaming demo_run" by (simp add: demo_run_def)
  from stream_deltas_concatenated [OF cut nonblank idle, of demo_env "''c1''"] cut nonblank idle
  show ?thesis by simp
qed

text \<open>
  The chunks of the example, each delta read as the cumulative text: the second observation
  would be \<open>Hi there\<close> and so would the persisted content. The code gives
  \<open>HiHi there\<close>.
\<close>

theorem cumulative_stream_counterexample:
  "content_observations
     (effects (handleSend demo_env ''c1''
        (Response True (Some [Chunk (frame_Hi @ [CHR 0x0A]),
                              Chunk (frame_Hi_there @ [CHR 0x0A] @ frame_DONE @ [CHR 0x0A])]))
        demo_run))
     = [units_of ''Hi'', units_of ''HiHi there''] \<and>
   map m_content (persisted_assistant
     (effects (handleSend demo_env ''c1''
        (Response True (Some [Chunk (frame_Hi @ [CHR 0x0A]),
                              Chunk (frame_Hi_there @ [CHR 0x0A] @ frame_DONE @ [CHR 0x0A])]))
        demo_run)))
     \<noteq> [units_of ''Hi there'']"
  by code_simp

text \<open>
  C3 at the input \<open>data: {"content":"Hi"}\<close> followed by \<open>data: {"error":"boom"}\<close>:
  content had started to stream when the failure came. The \<open>catch\<close> block keeps the
  fallback message off the screen (\<open>if (!assistantAdded)\<close>), which goes on showing
  \<open>Hi\<close>, but hands it to \<open>addMessage\<close> all the same; the streamed content is never
  persisted.
\<close>

theorem fallback_persisted_over_streamed_content:
  "map m_content (persisted_assistant
     (effects (handleSend demo_env ''c1''
        (Response True (Some [Chunk (frame_Hi @ [CHR 0x0A]), Chunk (frame_error @ [CHR 0x0A])]))
        demo_run)))
     = [units_of ''Sorry, something went wrong. Please try again.''] \<and>
   map m_content (messages (handleSend demo_env ''c1''
        (Response True (Some [Chunk (frame_Hi @ [CHR 0x0A]), Chunk (frame_error @ [CHR 0x0A])]))
        demo_run))
     = [units_of ''Hello'', units_of ''Hi''] \<and>
   content_observations
     (effects (handleSend demo_env ''c1''
        (Response True (Some [Chunk (frame_Hi @ [CHR 0x0A]), Chunk (frame_error @ [CHR 0x0A])]))
        demo_run))
     = [units_of ''Hi'']"
  by code_simp

subsection \<open>Signing up and logging in\<close>

lemma user_entry_roundtrip:
  "user_entry_of_json
     ((\<lambda>(name, password, ident).
         (units_of name,
          JObj [(units_of ''password'', JStr (units_of password)),
                (units_of ''id'', JStr (units_of ident))])) u) = Some u"
  by (cases u)
     (simp add: user_entry_of_json_def string_member_def own_property_def units_of_eq_iff
        narrow_units_of)

lemma users_of_json_of_users: "users_of_json (json_of_users users) = Some users"
  by (simp add: users_of_json_def json_of_users_def those_map_map user_entry_roundtrip)

lemma integral_json_of_users: "integral (json_of_users users)"
  unfolding json_of_users_def
  by (induction users) (simp_all add: case_prod_beta)

lemma getUsers_written:
  "a_storage a USERS_KEY = Some (stringify (json_of_users users)) \<Longrightarrow> getUsers a = Some users"
  by (simp add: getUsers_def stringify_not_Nil JSON_parse_stringify [OF integral_json_of_users]
      users_of_json_of_users)

lemma lookup_user_last: "lookup_user (users @ [(name, password, ident)]) name = Entry password ident"
  by (simp add: lookup_user_def)

lemma keys_differ: "CURRENT_USER_KEY \<noteq> USERS_KEY"
  by (simp add: CURRENT_USER_KEY_def USERS_KEY_def)

lemma login_registered:
  assumes "getUsers a = Some (users @ [(name, password, ident)])"
    and "toLowerCase (trim username') = name" and "name \<noteq> []" and "password \<noteq> []"
  shows "login username' password a
           = Some (Success, set_current_user \<lparr>u_id = ident, u_username = name\<rparr> a)"
    and "wrong \<noteq> password \<Longrightarrow>
         login username' wrong a
           = Some (Failure (if wrong = [] then ''Please enter both username and password''
                            else ''Incorrect password''), a)"
  using assms by (simp_all add: login_def Let_def lookup_user_last)

text \<open>
  C9: \<open>signup\<close> and \<open>login\<close> normalise the user name in the same way (trim, then
  lower case). A successful \<open>signup\<close> makes the user with the normalised name and the
  id \<open>Date.now().toString()\<close> followed by the random text. After it, and also after a
  \<open>logout\<close> in between, a \<open>login\<close> with the same password and any user name with
  the same normal form succeeds and makes exactly that user, with that id, the current one;
  with any other password it fails and changes nothing. \<open>Alice\<close> and \<open>alice\<close> in
  blanks are such a pair of names.
\<close>

theorem login_after_signup:
  assumes "signup t rnd username password a = Some (Success, a1)"
    and "toLowerCase (trim username') = toLowerCase (trim username)"
  shows "a_user a1 = Some \<lparr>u_id = nat_toString t @ rnd, u_username = toLowerCase (trim username)\<rparr> \<and>
         a_user (logout a1) = None \<and>
         (\<exists>a2. login username' password (logout a1) = Some (Success, a2) \<and>
               a_user a2
                 = Some \<lparr>u_id = nat_toString t @ rnd, u_username = toLowerCase (trim username)\<rparr>) \<and>
         (\<exists>a2. login username' password a1 = Some (Success, a2) \<and>
               a_user a2
                 = Some \<lparr>u_id = nat_toString t @ rnd, u_username = toLowerCase (trim username)\<rparr>) \<and>
         (wrong \<noteq> password \<longrightarrow>
            login username' wrong (logout a1)
              = Some (Failure (if wrong = [] then ''Please enter both username and password''
                               else ''Incorrect password''), logout a1))"
proof -
  let ?name = "toLowerCase (trim username)"
  let ?ident = "nat_toString t @ rnd"
  let ?u = "\<lparr>u_id = ?ident, u_username = ?name\<rparr>"
  from assms(1) have filled: "?name \<noteq> []" "password \<noteq> []"
    by (auto simp: signup_def Let_def split: if_splits)
  from assms(1) filled obtain users where users: "getUsers a = Some users"
    by (cases "getUsers a") (auto simp: signup_def Let_def split: if_splits)
  let ?a0 = "a\<lparr>a_storage := (a_storage a)(USERS_KEY \<mapsto>
      stringify (json_of_users (users @ [(?name, password, ?ident)])))\<rparr>"
  from assms(1) filled users have a1: "a1 = set_current_user ?u ?a0"
    by (auto simp: signup_def Let_def split: if_splits)
  have stored: "a_storage a1 USERS_KEY
      = Some (stringify (json_of_users (users @ [(?name, password, ?ident)])))"
    unfolding a1 using keys_differ by (simp add: set_current_user_def)
  then have stored_out: "a_storage (logout a1) USERS_KEY
      = Some (stringify (json_of_users (users @ [(?name, password, ?ident)])))"
    using keys_differ by (simp add: logout_def)
  note dir = getUsers_written [OF stored]
  note dir_out = getUsers_written [OF stored_out]
  have current: "a_user a1 = Some ?u" unfolding a1 by (simp add: set_current_user_def)
  have out: "a_user (logout a1) = None" by (simp add: logout_def)
  have again: "\<exists>a2. login username' password (logout a1) = Some (Success, a2) \<and> a_user a2 = Some ?u"
    using login_registered(1) [OF dir_out assms(2) filled]
    by (simp add: set_current_user_def)
  have twice: "\<exists>a2. login username' password a1 = Some (Success, a2) \<and> a_user a2 = Some ?u"
    using login_registered(1) [OF dir assms(2) filled]
    by (simp add: set_current_user_def)
  have refused: "wrong \<noteq> password \<longrightarrow>
      login username' wrong (logout a1)
        = Some (Failure (if wrong = [] then ''Please enter both username and password''
                         else ''Incorrect password''), logout a1)"
    using login_registered(2) [OF dir_out assms(2) filled] by blast
  from current out again twice refused show ?thesis by (intro conjI)
qed

theorem login_after_signup_witness:
  "toLowerCase (trim ''  alice '') = toLowerCase (trim ''Alice'') \<and>
   toLowerCase (trim ''Alice'') = ''alice'' \<and>
   (\<exists>a1 a2. signup 1000 ''r4nd0m'' ''Alice'' ''pass1'' demo_auth = Some (Success, a1) \<and>
            a_user (logout a1) = None \<and>
            login ''  alice '' ''pass1'' (logout a1) = Some (Success, a2) \<and>
            a_user a2 = Some \<lparr>u_id = ''1000r4nd0m'', u_username = ''alice''\<rparr> \<and>
            login ''  alice '' ''pass2'' (logout a1)
              = Some (Failure ''Incorrect password'', logout a1))"
proof -
  obtain a1 where up: "signup 1000 ''r4nd0m'' ''Alice'' ''pass1'' demo_auth = Some (Success, a1)"
    by (simp add: signup_def Let_def trim_def is_space_def toLowerCase_def toLowerCase_char_def
        getUsers_def lookup_user_def object_prototype_names_def demo_auth_def)
  have norm: "toLowerCase (trim ''  alice '') = toLowerCase (trim ''Alice'')"
    by code_simp
  have lower: "toLowerCase (trim ''Alice'') = ''alice''"
    by code_simp
  have ident: "nat_toString 1000 @ ''r4nd0m'' = ''1000r4nd0m''"
    by code_simp
  note w = login_after_signup [OF up norm, of "''pass2''"]
  from w obtain a2
    where a2: "login ''  alice '' ''pass1'' (logout a1) = Some (Success, a2)"
      "a_user a2 = Some \<lparr>u_id = ''1000r4nd0m'', u_username = ''alice''\<rparr>"
    unfolding lower ident by blast
  from w have out: "a_user (logout a1) = None" by blast
  from w have refused: "login ''  alice '' ''pass2'' (logout a1)
      = Some (Failure ''Incorrect password'', logout a1)"
    by simp
  from up out a2 refused
  have "\<exists>a1 a2. signup 1000 ''r4nd0m'' ''Alice'' ''pass1'' demo_auth = Some (Success, a1) \<and>
      a_user (logout a1) = None \<and>
      login ''  alice '' ''pass1'' (logout a1) = Some (Success, a2) \<and>
      a_user a2 = Some \<lparr>u_id = ''1000r4nd0m'', u_username = ''alice''\<rparr> \<and>
      login ''  alice '' ''pass2'' (logout a1)
        = Some (Failure ''Incorrect password'', logout a1)"
    by (intro exI conjI)
  with norm lower show ?thesis by (intro conjI)
qed

end
